theory Spec2Isabelle
  imports Complex_Main
begin

section \<open>Conventions of the embedding\<close>

text \<open>
  Python \<open>str\<close> values are modelled as \<open>string\<close> (lists of 8-bit characters). The
  character classes of the source (\<open>str.isdigit\<close>, \<open>\<bsol>d\<close>, \<open>\<bsol>s\<close>, \<open>\<bsol>b\<close>, \<open>str.lower\<close>,
  \<open>str.upper\<close>, \<open>str.split\<close>) are modelled on the ASCII range; a character above 127 is
  never a digit, a letter or white space here. A finite Python \<open>float\<close> is modelled
  as the rational number it stands for (\<open>rat\<close>), every operation rounding its result to
  the nearest double; \<open>NaN\<close> is a value of its own where the source can produce it.
\<close>

text \<open>The exceptions that the modelled code can raise.\<close>

datatype exn = KeyError | IndexError | AttributeError | TypeError | ValueError

section \<open>Python strings\<close>

definition is_digit :: "char \<Rightarrow> bool" where
  "is_digit c = (c \<in> set ''0123456789'')"

text \<open>White space as \<open>str.isspace\<close>, \<open>str.strip\<close>, \<open>str.split\<close> and \<open>\<bsol>s\<close> see it (ASCII).\<close>

definition is_space :: "char \<Rightarrow> bool" where
  "is_space c = (c \<in> set [CHR 0x09, CHR 0x0A, CHR 0x0B, CHR 0x0C, CHR 0x0D,
                            CHR 0x1C, CHR 0x1D, CHR 0x1E, CHR 0x1F, CHR '' ''])"

definition lower_char :: "char \<Rightarrow> char" where
  "lower_char c =
     (case map_of (zip ''ABCDEFGHIJKLMNOPQRSTUVWXYZ'' ''abcdefghijklmnopqrstuvwxyz'') c of
        Some d \<Rightarrow> d | None \<Rightarrow> c)"

definition upper_char :: "char \<Rightarrow> char" where
  "upper_char c =
     (case map_of (zip ''abcdefghijklmnopqrstuvwxyz'' ''ABCDEFGHIJKLMNOPQRSTUVWXYZ'') c of
        Some d \<Rightarrow> d | None \<Rightarrow> c)"

definition lower :: "string \<Rightarrow> string" where
  "lower s = map lower_char s"

definition upper :: "string \<Rightarrow> string" where
  "upper s = map upper_char s"

definition strip :: "string \<Rightarrow> string" where
  "strip s = rev (dropWhile is_space (rev (dropWhile is_space s)))"

text \<open>\<open>s.startswith(p)\<close>.\<close>

fun startswith :: "string \<Rightarrow> string \<Rightarrow> bool" where
  "startswith s [] = True"
| "startswith [] (p # ps) = False"
| "startswith (c # cs) (p # ps) = (c = p \<and> startswith cs ps)"

text \<open>\<open>k in text\<close> on strings: \<open>k\<close> occurs in \<open>text\<close> as a contiguous substring.\<close>

fun contains :: "string \<Rightarrow> string \<Rightarrow> bool" where
  "contains [] k = (k = [])"
| "contains (c # cs) k = (startswith (c # cs) k \<or> contains cs k)"

text \<open>\<open>s.split(sep)\<close> for a one-character separator: empty fields are kept.\<close>

fun split_on :: "char \<Rightarrow> string \<Rightarrow> string list" where
  "split_on sep [] = [[]]"
| "split_on sep (c # cs) =
     (case split_on sep cs of
        [] \<Rightarrow> [[]]
      | w # ws \<Rightarrow> if c = sep then [] # w # ws else (c # w) # ws)"

section \<open>Python floats\<close>

text \<open>
  A finite \<open>float\<close> is the rational number it stands for. \<open>to_double x\<close> is the double
  nearest to \<open>x\<close>: the multiple of the unit in the last place \<open>2 powi q\<close> nearest to \<open>x\<close>,
  a tie going to the even multiple, where \<open>q\<close> leaves 53 bits to the significand and is
  at least \<open>-1074\<close> (the subnormal range). Every operation of the source on floats is
  the exact operation followed by \<open>to_double\<close>. A result of magnitude \<open>2 ^ 1024\<close> or more,
  which is an infinity in Python, is outside the model.
\<close>

text \<open>The integer nearest to \<open>y\<close>, a tie going to the even one.\<close>

definition round_half_even :: "rat \<Rightarrow> int" where
  "round_half_even y =
     (let f = \<lfloor>y\<rfloor>; d = y - of_int f in
      if d < 1 / 2 then f else if 1 / 2 < d then f + 1 else if even f then f else f + 1)"

text \<open>The number of binary digits of \<open>n\<close> (\<open>int.bit_length\<close>).\<close>

function bit_length :: "nat \<Rightarrow> nat" where
  "bit_length n = (if n = 0 then 0 else Suc (bit_length (n div 2)))"
  by pat_completeness auto
termination
  by (relation "measure id") auto

declare bit_length.simps [simp del]

text \<open>For \<open>a > 0\<close>, the \<open>e\<close> with \<open>2 powi e \<le> a < 2 powi (e + 1)\<close>.\<close>

definition floor_log2 :: "rat \<Rightarrow> int" where
  "floor_log2 a =
     (if 1 \<le> a then int (bit_length (nat \<lfloor>a\<rfloor>)) - 1
      else - int (bit_length (nat (\<lceil>1 / a\<rceil> - 1))))"

definition to_double :: "rat \<Rightarrow> rat" where
  "to_double x =
     (if x = 0 then 0
      else (let a = \<bar>x\<bar>;
                q = max (floor_log2 a - 52) (- 1074);
                m = round_half_even (a / 2 powi q)
            in (if x < 0 then - 1 else 1) * (of_int m * 2 powi q)))"

text \<open>The value of a string of decimal digits.\<close>

definition digit_val :: "char \<Rightarrow> nat" where
  "digit_val c = (case map_of (zip ''0123456789'' [0, 1, 2, 3, 4, 5, 6, 7, 8, 9]) c of
                    Some d \<Rightarrow> d | None \<Rightarrow> 0)"

definition nat_of_digits :: "string \<Rightarrow> nat" where
  "nat_of_digits s = foldl (\<lambda>n c. 10 * n + digit_val c) 0 s"

text \<open>
  \<open>float(s)\<close> for a string \<open>s\<close> of digits and decimal points only (what is left after
  \<open>re.sub(r"[^\<bsol>d.]", "", ...)\<close>): Python accepts \<open>digits\<close>, \<open>digits.\<close>, \<open>digits.digits\<close>
  and \<open>.digits\<close>, and raises \<open>ValueError\<close> (here \<open>None\<close>) on everything else, such as
  \<open>""\<close>, \<open>"."\<close> and \<open>"1.2.3"\<close>. The value is the double nearest to the decimal value.
\<close>

definition float_of_digits :: "string \<Rightarrow> rat option" where
  "float_of_digits s =
     (let ip = takeWhile is_digit s; rest = dropWhile is_digit s in
      case rest of
        [] \<Rightarrow> if ip = [] then None else Some (to_double (of_nat (nat_of_digits ip)))
      | c # fp \<Rightarrow>
          if c = CHR ''.'' \<and> list_all is_digit fp \<and> (ip \<noteq> [] \<or> fp \<noteq> [])
          then Some (to_double
                 (of_nat (nat_of_digits ip) + of_nat (nat_of_digits fp) / 10 ^ length fp))
          else None)"

text \<open>\<open>re.sub(r"[^\<bsol>d.]", "", s)\<close>.\<close>

definition strip_non_numeric :: "string \<Rightarrow> string" where
  "strip_non_numeric s = filter (\<lambda>c. is_digit c \<or> c = CHR ''.'') s"

section \<open>Table cells\<close>

text \<open>
  A cell of a pandas data frame read from CSV. \<open>NaN\<close> is the missing value. Cells of text
  columns are \<open>Str s\<close>. For an amount cell, of which the source only uses \<open>pd.isna\<close> and
  \<open>str\<close>, \<open>Str s\<close> stands for any value whose \<open>str()\<close> is \<open>s\<close>.
\<close>

datatype cell = NaN | Str string

text \<open>\<open>str(v)\<close>.\<close>

definition cell_str :: "cell \<Rightarrow> string" where
  "cell_str v = (case v of NaN \<Rightarrow> ''nan'' | Str s \<Rightarrow> s)"

text \<open>A Python \<open>float\<close>: a rational, or \<open>NaN\<close>.\<close>

datatype pyfloat = FNaN | Fin rat

section \<open>The risk engine: \<open>src/pqe_engine.py\<close>\<close>

definition MIN_SPEND_GBP :: rat where
  "MIN_SPEND_GBP = 5000"

text \<open>
  \<open>clean_currency\<close>: the \<open>try\<close> block can only fail in \<open>float\<close>, with \<open>ValueError\<close>, which
  the \<open>except\<close> clause turns into \<open>0.0\<close>.
\<close>

definition clean_currency :: "cell \<Rightarrow> rat" where
  "clean_currency val =
     (let clean_str = strip_non_numeric (cell_str val) in
      if clean_str \<noteq> [] then
        (case float_of_digits clean_str of Some x \<Rightarrow> x | None \<Rightarrow> 0)
      else 0)"

text \<open>
  A row of the material reference table. The two numeric columns are \<open>float64\<close> columns:
  a number, or \<open>NaN\<close> for an empty cell.
\<close>

record material =
  material_id :: cell
  material_name :: cell
  keywords_col :: cell
  composite_price_gbp_per_tonne :: pyfloat
  carbon_factor_kgco2e_per_tonne :: pyfloat
  ice_source_ref :: cell

text \<open>
  The list \<open>keywords\<close> of \<open>detect_material\<close>:
  \<open>[k.strip().lower() for k in str(row.get("keywords", "")).split("|") if k.strip()]\<close>.
  For a missing cell \<open>str\<close> gives \<open>nan\<close>, which is then the only keyword of the row.
\<close>

definition row_keywords :: "material \<Rightarrow> string list" where
  "row_keywords row =
     map (\<lambda>k. lower (strip k))
       (filter (\<lambda>k. strip k \<noteq> []) (split_on CHR ''|'' (cell_str (keywords_col row))))"

definition is_gen_row :: "material \<Rightarrow> bool" where
  \<comment> \<open>the test of the scan: \<open>str(row.get("material_id", "")).upper() == "MAT_GEN"\<close>\<close>
  "is_gen_row row = (upper (cell_str (material_id row)) = ''MAT_GEN'')"

definition row_matches :: "string \<Rightarrow> material \<Rightarrow> bool" where
  \<comment> \<open>\<open>any(k and k in text for k in keywords)\<close>\<close>
  "row_matches text row = list_ex (\<lambda>k. k \<noteq> [] \<and> contains text k) (row_keywords row)"

text \<open>The \<open>for\<close> loop of \<open>detect_material\<close> over the rows, on the lower-cased text.\<close>

fun scan_rows :: "string \<Rightarrow> material list \<Rightarrow> material option" where
  "scan_rows text [] = None"
| "scan_rows text (row # rows) =
     (if is_gen_row row then scan_rows text rows
      else if row_matches text row then Some row
      else scan_rows text rows)"

text \<open>
  \<open>detect_material\<close>. The fallback is \<open>gen = ref_df[ref_df["material_id"] == "MAT_GEN"]\<close>,
  an exact comparison of the cell with the string, and \<open>gen.iloc[0]\<close> when it is not empty.
\<close>

definition detect_material :: "string \<Rightarrow> material list \<Rightarrow> material option" where
  "detect_material text ref_df =
     (case scan_rows (lower text) ref_df of
        Some row \<Rightarrow> Some row
      | None \<Rightarrow>
          (case filter (\<lambda>row. material_id row = Str ''MAT_GEN'') ref_df of
             [] \<Rightarrow> None
           | gen # _ \<Rightarrow> Some gen))"

subsection \<open>Contract rows\<close>

text \<open>
  A contract, as the dictionary built by the ingestion and as a row of the CSV tables
  made from it. \<open>'v\<close> is the type of the cells and \<open>'a\<close> the type of the amount: JSON
  values in the ingestion, cells in the tables, and a float for the amount once
  \<open>clean_financials\<close> has been applied.
\<close>

record ('v, 'a) contract =
  ocid :: 'v
  title :: 'v
  description :: 'v
  cpv_code :: 'v
  value_amount :: 'a
  currency :: 'v
  published_date :: 'v
  buyer_name :: 'v
  buyer_country :: 'v
  tender_status :: 'v
  source :: 'v

type_synonym table_row = "(cell, cell) contract"

subsection \<open>Float arithmetic of the engine\<close>

definition fl_div :: "pyfloat \<Rightarrow> pyfloat \<Rightarrow> pyfloat" where
  \<comment> \<open>only used with a divisor that is not \<open>\<le> 0\<close>: no \<open>ZeroDivisionError\<close>\<close>
  "fl_div a b = (case (a, b) of (Fin x, Fin y) \<Rightarrow> Fin (to_double (x / y)) | _ \<Rightarrow> FNaN)"

definition fl_mul :: "pyfloat \<Rightarrow> pyfloat \<Rightarrow> pyfloat" where
  "fl_mul a b = (case (a, b) of (Fin x, Fin y) \<Rightarrow> Fin (to_double (x * y)) | _ \<Rightarrow> FNaN)"

definition fl_le :: "pyfloat \<Rightarrow> rat \<Rightarrow> bool" where
  \<comment> \<open>a comparison with \<open>NaN\<close> is false\<close>
  "fl_le a c = (case a of Fin x \<Rightarrow> x \<le> c | FNaN \<Rightarrow> False)"

definition fl_ge :: "pyfloat \<Rightarrow> rat \<Rightarrow> bool" where
  "fl_ge a c = (case a of Fin x \<Rightarrow> c \<le> x | FNaN \<Rightarrow> False)"

text \<open>
  \<open>round(x, 2)\<close>: the value of the double \<open>x\<close> is rounded to the nearest multiple of 0.01,
  a tie going to the even one, and the result is the double nearest to that decimal.
\<close>

definition round2 :: "pyfloat \<Rightarrow> pyfloat" where
  "round2 a =
     (case a of
        Fin x \<Rightarrow> Fin (to_double (of_int (round_half_even (x * 100)) / 100))
      | FNaN \<Rightarrow> FNaN)"

subsection \<open>One contract\<close>

datatype pqe_status = CALCULATED | SKIPPED_LOW_VALUE | SKIPPED_NO_REF | SKIPPED_INVALID_REF

datatype risk = CRITICAL | HIGH | MEDIUM | LOW

text \<open>The values computed for a contract before they are rounded and attached.\<close>

record estimate =
  est_tonnes :: pyfloat
  est_co2e :: pyfloat
  low_bound :: pyfloat
  high_bound :: pyfloat
  risk_tier :: risk

definition compute_estimate :: "rat \<Rightarrow> pyfloat \<Rightarrow> pyfloat \<Rightarrow> estimate" where
  "compute_estimate spend_gbp price factor =
     (let est_tonnes = fl_div (Fin spend_gbp) price;
          est_co2e = fl_div (fl_mul est_tonnes factor) (Fin 1000);
          low_bound = fl_mul est_co2e (Fin (3 / 4));
          high_bound = fl_mul est_co2e (Fin (5 / 4));
          risk = (if fl_ge est_co2e 1000 then CRITICAL
                  else if fl_ge est_co2e 250 then HIGH
                  else if fl_ge est_co2e 50 then MEDIUM
                  else LOW)
      in \<lparr>est_tonnes = est_tonnes, est_co2e = est_co2e, low_bound = low_bound,
          high_bound = high_bound, risk_tier = risk\<rparr>)"

text \<open>The columns that \<open>r.update\<close> adds to a \<open>CALCULATED\<close> row.\<close>

record calc_fields =
  detected_material_id :: cell
  detected_material_name :: cell
  applied_price_rate :: pyfloat
  applied_carbon_factor :: pyfloat
  est_material_tonnes :: pyfloat
  est_co2e_tonnes :: pyfloat
  co2e_range_low :: pyfloat
  co2e_range_high :: pyfloat
  risk_category :: risk
  data_source_ref :: cell

text \<open>
  A row of the output: the input row (\<open>row.to_dict()\<close>), the status, the two diagnostic
  columns of a \<open>SKIPPED_INVALID_REF\<close> row, and the columns of a \<open>CALCULATED\<close> row.
\<close>

record result_row =
  input_row :: table_row
  status :: pqe_status
  ref_price_factor :: "(pyfloat \<times> pyfloat) option"
  calc :: "calc_fields option"

text \<open>\<open>row.get("title", "") or ""\<close>: an empty string is replaced by an empty string, and
  \<open>NaN\<close>, which is true, stays.\<close>

definition or_empty :: "cell \<Rightarrow> cell" where
  "or_empty v = (case v of Str s \<Rightarrow> (if s = [] then Str [] else Str s) | NaN \<Rightarrow> NaN)"

definition full_text :: "table_row \<Rightarrow> string" where
  "full_text row = cell_str (or_empty (title row)) @ '' '' @ cell_str (or_empty (description row))"

text \<open>
  The body of the loop over the contracts. \<open>float(mat.get(...) or 0)\<close> is the cell itself
  for a numeric cell: zero is replaced by zero, \<open>NaN\<close> is true and \<open>float(NaN)\<close> is
  \<open>NaN\<close>.
\<close>

definition process_contract :: "material list \<Rightarrow> table_row \<Rightarrow> result_row" where
  "process_contract materials row =
     (let spend_gbp = clean_currency (value_amount row) in
      if spend_gbp < MIN_SPEND_GBP then
        \<lparr>input_row = row, status = SKIPPED_LOW_VALUE, ref_price_factor = None, calc = None\<rparr>
      else
        (case detect_material (full_text row) materials of
           None \<Rightarrow>
             \<lparr>input_row = row, status = SKIPPED_NO_REF, ref_price_factor = None, calc = None\<rparr>
         | Some mat \<Rightarrow>
             (let price = composite_price_gbp_per_tonne mat;
                  factor = carbon_factor_kgco2e_per_tonne mat in
              if fl_le price 0 \<or> fl_le factor 0 then
                \<lparr>input_row = row, status = SKIPPED_INVALID_REF,
                 ref_price_factor = Some (price, factor), calc = None\<rparr>
              else
                (let e = compute_estimate spend_gbp price factor in
                 \<lparr>input_row = row, status = CALCULATED, ref_price_factor = None,
                  calc = Some
                    \<lparr>detected_material_id = material_id mat,
                     detected_material_name = material_name mat,
                     applied_price_rate = price,
                     applied_carbon_factor = factor,
                     est_material_tonnes = round2 (est_tonnes e),
                     est_co2e_tonnes = round2 (est_co2e e),
                     co2e_range_low = round2 (low_bound e),
                     co2e_range_high = round2 (high_bound e),
                     risk_category = risk_tier e,
                     data_source_ref = ice_source_ref mat\<rparr>\<rparr>))))"

subsection \<open>The whole run\<close>

text \<open>
  \<open>out_df["est_co2e_tonnes"].fillna(-1)\<close>: the column is missing (\<open>NaN\<close>) in the rows that
  are not \<open>CALCULATED\<close>.
\<close>

definition sort_helper :: "result_row \<Rightarrow> rat" where
  "sort_helper r =
     (case calc r of
        None \<Rightarrow> - 1
      | Some c \<Rightarrow> (case est_co2e_tonnes c of FNaN \<Rightarrow> - 1 | Fin v \<Rightarrow> v))"

text \<open>
  The output table. The column \<open>est_co2e_tonnes\<close> exists when some row is \<open>CALCULATED\<close>;
  then the rows are sorted by \<open>sort_helper\<close>, descending. (\<open>sort_key\<close> is a stable sort;
  pandas does not promise an order among rows of equal key, and nothing below depends on
  it.)
\<close>

definition run_pqe_engine :: "table_row list \<Rightarrow> material list \<Rightarrow> result_row list" where
  "run_pqe_engine contracts materials =
     (let results = map (process_contract materials) contracts in
      if list_ex (\<lambda>r. calc r \<noteq> None) results
      then sort_key (\<lambda>r. - sort_helper r) results
      else results)"

section \<open>Ingestion: \<open>src/ingest/contracts_finder.py\<close>\<close>

subsection \<open>The retrying request handler\<close>

text \<open>
  \<open>requests.get\<close> is the environment. One call either returns a response, raises a
  \<open>requests.exceptions.RequestException\<close> (caught by \<open>safe_get\<close>), or raises another
  \<open>Exception\<close> (which \<open>safe_get\<close> does not catch). The environment is the list of the outcomes
  of the successive calls; a call made when the list is empty has no outcome yet
  (\<open>Pending\<close>).
\<close>

datatype 'r outcome = Returns 'r | RequestException | OtherException

datatype 'r get_result =
    Returned 'r
  | RuntimeError        \<comment> \<open>\<open>raise RuntimeError("Max retries exceeded ...")\<close>\<close>
  | Propagated          \<comment> \<open>an exception that \<open>safe_get\<close> does not catch\<close>
  | Pending             \<comment> \<open>the environment has no further outcome\<close>

record 'r get_state =
  result :: "'r get_result"
  slept :: "int list"          \<comment> \<open>arguments of \<open>time.sleep\<close>, in order\<close>
  attempts :: nat               \<comment> \<open>number of calls of \<open>requests.get\<close>\<close>
  remaining :: "'r outcome list"

definition MAX_RETRIES :: nat where
  "MAX_RETRIES = 5"

text \<open>The loop \<open>for attempt in range(retries)\<close>, started at \<open>attempt\<close>.\<close>

function safe_get_loop ::
  "nat \<Rightarrow> int \<Rightarrow> nat \<Rightarrow> int list \<Rightarrow> 'r outcome list \<Rightarrow> 'r get_state" where
  "safe_get_loop retries backoff attempt sl outs =
     (if attempt < retries then
        (case outs of
           [] \<Rightarrow> \<lparr>result = Pending, slept = sl, attempts = attempt, remaining = []\<rparr>
         | Returns r # rest \<Rightarrow>
             \<lparr>result = Returned r, slept = sl, attempts = Suc attempt, remaining = rest\<rparr>
         | OtherException # rest \<Rightarrow>
             \<lparr>result = Propagated, slept = sl, attempts = Suc attempt, remaining = rest\<rparr>
         | RequestException # rest \<Rightarrow>
             safe_get_loop retries backoff (Suc attempt)
               (sl @ [backoff * (int attempt + 1)]) rest)
      else \<lparr>result = RuntimeError, slept = sl, attempts = attempt, remaining = outs\<rparr>)"
  by pat_completeness auto
termination
  by (relation "measure (\<lambda>(retries, backoff, attempt, sl, outs). retries - attempt)") auto

definition safe_get :: "nat \<Rightarrow> int \<Rightarrow> 'r outcome list \<Rightarrow> 'r get_state" where
  "safe_get retries backoff outs = safe_get_loop retries backoff 0 [] outs"

subsection \<open>JSON values\<close>

text \<open>
  What \<open>response.json()\<close> returns. A JSON object is the list of its items in insertion
  order, looked up by key from the left. JSON numbers are modelled as integers: a number
  with a fraction can occur in a notice (as an amount, which the ingestion passes on
  unread), and is outside this model.
\<close>

datatype json =
    JNull
  | JBool bool
  | JInt int
  | JStr string
  | JList "json list"
  | JObj "(string \<times> json) list"

text \<open>The truth value of a Python object, as \<open>not x\<close>, \<open>x or y\<close> and \<open>if x\<close> take it.\<close>

fun truthy :: "json \<Rightarrow> bool" where
  "truthy JNull = False"
| "truthy (JBool b) = b"
| "truthy (JInt i) = (i \<noteq> 0)"
| "truthy (JStr s) = (s \<noteq> [])"
| "truthy (JList xs) = (xs \<noteq> [])"
| "truthy (JObj kvs) = (kvs \<noteq> [])"

text \<open>\<open>x or y\<close>.\<close>

definition py_or :: "json \<Rightarrow> json \<Rightarrow> json" where
  "py_or x y = (if truthy x then x else y)"

text \<open>\<open>obj.get(key, dflt)\<close>: only a dictionary has the method.\<close>

definition dict_get :: "json \<Rightarrow> string \<Rightarrow> json \<Rightarrow> exn + json" where
  "dict_get obj key dflt =
     (case obj of
        JObj kvs \<Rightarrow> Inr (case map_of kvs key of Some v \<Rightarrow> v | None \<Rightarrow> dflt)
      | _ \<Rightarrow> Inl AttributeError)"

text \<open>Sequencing of steps that may raise.\<close>

definition and_then :: "exn + 'a \<Rightarrow> ('a \<Rightarrow> exn + 'b) \<Rightarrow> exn + 'b" where
  "and_then m f = (case m of Inl e \<Rightarrow> Inl e | Inr x \<Rightarrow> f x)"

text \<open>\<open>for x in obj\<close>: the elements of a list, the keys of a dictionary, the characters
  of a string; other values are not iterable.\<close>

definition py_iter :: "json \<Rightarrow> exn + json list" where
  "py_iter obj =
     (case obj of
        JList xs \<Rightarrow> Inr xs
      | JObj kvs \<Rightarrow> Inr (map (\<lambda>kv. JStr (fst kv)) kvs)
      | JStr s \<Rightarrow> Inr (map (\<lambda>c. JStr [c]) s)
      | _ \<Rightarrow> Inl TypeError)"

text \<open>\<open>x == y\<close>: \<open>True\<close> and \<open>False\<close> are the integers 1 and 0; lists are equal
  elementwise, dictionaries as maps.\<close>

fun py_eq :: "json \<Rightarrow> json \<Rightarrow> bool" where
  "py_eq JNull y = (y = JNull)"
| "py_eq (JBool a) y =
     (case y of JBool b \<Rightarrow> a = b | JInt j \<Rightarrow> (if a then 1 else 0) = j | _ \<Rightarrow> False)"
| "py_eq (JInt i) y =
     (case y of JBool b \<Rightarrow> i = (if b then 1 else 0) | JInt j \<Rightarrow> i = j | _ \<Rightarrow> False)"
| "py_eq (JStr s) y = (y = JStr s)"
| "py_eq (JList xs) y = (case y of JList ys \<Rightarrow> list_all2 py_eq xs ys | _ \<Rightarrow> False)"
| "py_eq (JObj kvs) y =
     (case y of
        JObj kws \<Rightarrow>
          set (map fst kvs) = set (map fst kws) \<and>
          (\<forall>kv \<in> set kvs. map_of kvs (fst kv) = Some (snd kv) \<longrightarrow>
             (case map_of kws (fst kv) of None \<Rightarrow> False | Some w \<Rightarrow> py_eq (snd kv) w))
      | _ \<Rightarrow> False)"

text \<open>A value that can be a member of a \<open>set\<close>: lists and dictionaries are unhashable.\<close>

fun hashable :: "json \<Rightarrow> bool" where
  "hashable (JList xs) = False"
| "hashable (JObj kvs) = False"
| "hashable x = True"

text \<open>\<open>x in s\<close> for a set \<open>s\<close>, given as the list of its elements.\<close>

definition py_in :: "json \<Rightarrow> json list \<Rightarrow> exn + bool" where
  "py_in x s = (if hashable x then Inr (list_ex (py_eq x) s) else Inl TypeError)"

text \<open>\<open>str(x)\<close> and \<open>repr(x)\<close>.\<close>

definition digit_char :: "nat \<Rightarrow> char" where
  "digit_char n = ''0123456789abcdef'' ! (n mod 16)"

function string_of_nat :: "nat \<Rightarrow> string" where
  "string_of_nat n =
     (if n < 10 then [digit_char n] else string_of_nat (n div 10) @ [digit_char (n mod 10)])"
  by pat_completeness auto
termination
  by (relation "measure id") auto

definition string_of_int :: "int \<Rightarrow> string" where
  "string_of_int i = (if i < 0 then CHR ''-'' # string_of_nat (nat (- i)) else string_of_nat (nat i))"

definition repr_char :: "char \<Rightarrow> char \<Rightarrow> string" where
  "repr_char quote c =
     (if c = CHR 0x5C then [CHR 0x5C, CHR 0x5C]
      else if c = quote then [CHR 0x5C, quote]
      else if c = CHR 0x0A then [CHR 0x5C, CHR ''n'']
      else if c = CHR 0x0D then [CHR 0x5C, CHR ''r'']
      else if c = CHR 0x09 then [CHR 0x5C, CHR ''t'']
      else if (of_char c :: nat) < 32 \<or> (of_char c :: nat) = 127
        then [CHR 0x5C, CHR ''x'', digit_char (of_char c div 16), digit_char (of_char c mod 16)]
      else [c])"

definition repr_str :: "string \<Rightarrow> string" where
  "repr_str s =
     (let quote = (if CHR 0x27 \<in> set s \<and> CHR 0x22 \<notin> set s then CHR 0x22 else CHR 0x27)
      in [quote] @ concat (map (repr_char quote) s) @ [quote])"

fun join :: "string \<Rightarrow> string list \<Rightarrow> string" where
  "join sep [] = []"
| "join sep [x] = x"
| "join sep (x # y # ys) = x @ sep @ join sep (y # ys)"

fun py_repr :: "json \<Rightarrow> string" where
  "py_repr JNull = ''None''"
| "py_repr (JBool b) = (if b then ''True'' else ''False'')"
| "py_repr (JInt i) = string_of_int i"
| "py_repr (JStr s) = repr_str s"
| "py_repr (JList xs) = ''['' @ join '', '' (map py_repr xs) @ '']''"
| "py_repr (JObj kvs) =
     ''{'' @ join '', '' (map (\<lambda>kv. repr_str (fst kv) @ '': '' @ py_repr (snd kv)) kvs) @ ''}''"

definition py_str :: "json \<Rightarrow> string" where
  "py_str x = (case x of JStr s \<Rightarrow> s | _ \<Rightarrow> py_repr x)"

subsection \<open>Classification codes and values\<close>

definition CIVIL_WORKS_CPVS :: "string list" where
  "CIVIL_WORKS_CPVS = [''45'', ''71'']"

definition normalize_cpv :: "json \<Rightarrow> string" where
  "normalize_cpv raw =
     (if \<not> truthy raw then ''UNKNOWN''
      else (let digits = filter is_digit (py_str raw) in
            if digits = [] then ''UNKNOWN'' else digits))"

text \<open>The loop of \<open>extract_cpv\<close> over a list of classifications: the \<open>id\<close> of the first
  element that is a dictionary with a true \<open>id\<close>.\<close>

fun first_classification_id :: "json list \<Rightarrow> json option" where
  "first_classification_id [] = None"
| "first_classification_id (c # cs) =
     (case c of
        JObj kvs \<Rightarrow>
          (case map_of kvs ''id'' of
             Some i \<Rightarrow> if truthy i then Some i else first_classification_id cs
           | None \<Rightarrow> first_classification_id cs)
      | _ \<Rightarrow> first_classification_id cs)"

definition is_dict :: "json \<Rightarrow> bool" where
  "is_dict x = (case x of JObj kvs \<Rightarrow> True | _ \<Rightarrow> False)"

definition extract_cpv :: "json \<Rightarrow> json \<Rightarrow> exn + string" where
  "extract_cpv tender release =
     and_then (if truthy tender then dict_get tender ''classification'' JNull else Inr JNull)
       (\<lambda>classification.
          if is_dict classification then
            and_then (dict_get classification ''id'' JNull) (\<lambda>i. Inr (normalize_cpv i))
          else
            (case (case classification of JList cs \<Rightarrow> first_classification_id cs | _ \<Rightarrow> None) of
               Some i \<Rightarrow> Inr (normalize_cpv i)
             | None \<Rightarrow>
                 and_then (dict_get release ''classification'' JNull)
                   (\<lambda>rc. if is_dict rc
                          then and_then (dict_get rc ''id'' JNull) (\<lambda>i. Inr (normalize_cpv i))
                          else Inr ''UNKNOWN'')))"

text \<open>One round of the loop of \<open>extract_value\<close>: \<open>None\<close> when the loop goes on.\<close>

definition value_of :: "json \<Rightarrow> exn + (json \<times> json) option" where
  "value_of obj =
     (if \<not> truthy obj then Inr None
      else and_then (dict_get obj ''value'' JNull)
        (\<lambda>v. if is_dict v then
               and_then (dict_get v ''amount'' JNull)
                 (\<lambda>a. if a \<noteq> JNull then
                        and_then (dict_get v ''amount'' (JInt 0))
                          (\<lambda>amount. and_then (dict_get v ''currency'' (JStr ''GBP''))
                             (\<lambda>currency. Inr (Some (amount, currency))))
                      else Inr None)
             else Inr None))"

definition extract_value :: "json \<Rightarrow> json \<Rightarrow> exn + (json \<times> json)" where
  "extract_value tender release =
     and_then (value_of tender)
       (\<lambda>r. case r of
          Some v \<Rightarrow> Inr v
        | None \<Rightarrow>
            and_then (value_of release)
              (\<lambda>r. case r of Some v \<Rightarrow> Inr v | None \<Rightarrow> Inr (JInt 0, JStr ''GBP'')))"

subsection \<open>One release\<close>

text \<open>The loop over the parties that looks for the country of the buyer.\<close>

fun buyer_country_loop :: "json \<Rightarrow> json \<Rightarrow> json list \<Rightarrow> exn + json" where
  "buyer_country_loop buyer country [] = Inr country"
| "buyer_country_loop buyer country (p # ps) =
     and_then (dict_get p ''id'' JNull)
       (\<lambda>pid. and_then (dict_get buyer ''id'' JNull)
          (\<lambda>bid. if py_eq pid bid then
                   and_then (dict_get p ''address'' JNull)
                     (\<lambda>address. and_then (dict_get (py_or address (JObj [])) ''countryName'' (JStr ''GB''))
                        (\<lambda>c. buyer_country_loop buyer c ps))
                 else buyer_country_loop buyer country ps))"

text \<open>\<open>x[:500]\<close>: strings and lists can be sliced.\<close>

definition slice_500 :: "json \<Rightarrow> exn + json" where
  "slice_500 x =
     (case x of
        JStr s \<Rightarrow> Inr (JStr (take 500 s))
      | JList xs \<Rightarrow> Inr (JList (take 500 xs))
      | _ \<Rightarrow> Inl TypeError)"

text \<open>The state of the run that the loop over the releases changes: the list
  \<open>all_contracts\<close> and the set \<open>seen_ocids\<close> (its elements in the order of insertion).\<close>

record ingest_state =
  all_contracts :: "(json, json) contract list"
  seen_ocids :: "json list"

text \<open>The dictionary appended to \<open>all_contracts\<close>, its items evaluated in their order.\<close>

definition build_contract ::
  "json \<Rightarrow> json \<Rightarrow> json \<Rightarrow> string \<Rightarrow> json \<Rightarrow> json \<Rightarrow> json \<Rightarrow> json \<Rightarrow> exn + (json, json) contract" where
  "build_contract oc tender release cpv amount currency_code buyer country =
     and_then (dict_get tender ''title'' (JStr ''Unknown''))
       (\<lambda>t. and_then (dict_get tender ''description'' JNull)
       (\<lambda>d. and_then (slice_500 (py_or d (JStr [])))
       (\<lambda>d500. and_then (dict_get release ''date'' JNull)
       (\<lambda>date. and_then (dict_get buyer ''name'' (JStr ''Unknown''))
       (\<lambda>bname. and_then (dict_get tender ''status'' JNull)
       (\<lambda>st. Inr \<lparr>ocid = oc, title = t, description = d500, cpv_code = JStr cpv,
                   value_amount = amount, currency = currency_code, published_date = date,
                   buyer_name = bname, buyer_country = country, tender_status = st,
                   source = JStr ''UK Contracts Finder''\<rparr>))))))"

text \<open>
  The body of \<open>for release in releases\<close>. The result is the new state, or the exception
  that leaves the loop; \<open>continue\<close> gives the state back unchanged.
\<close>

definition process_release ::
  "'a ingest_state_scheme \<Rightarrow> json \<Rightarrow> exn + 'a ingest_state_scheme" where
  "process_release st release =
     and_then (dict_get release ''ocid'' JNull)
       (\<lambda>oc. and_then (if \<not> truthy oc then Inr True else py_in oc (seen_ocids st))
       (\<lambda>skip. if skip then Inr st else
          and_then (dict_get release ''tender'' (JObj []))
       (\<lambda>tender. and_then (extract_cpv tender release)
       (\<lambda>cpv. if cpv = ''UNKNOWN'' then Inr st
               else if \<not> list_ex (startswith cpv) CIVIL_WORKS_CPVS then Inr st
               else
          and_then (extract_value tender release)
       (\<lambda>(amount, currency_code). and_then (dict_get release ''buyer'' JNull)
       (\<lambda>b. and_then (dict_get release ''parties'' JNull)
       (\<lambda>ps. and_then (py_iter (py_or ps (JList [])))
       (\<lambda>parties. and_then (buyer_country_loop (py_or b (JObj [])) (JStr ''GB'') parties)
       (\<lambda>country. and_then (build_contract oc tender release cpv amount currency_code (py_or b (JObj [])) country)
       (\<lambda>c. Inr (st\<lparr>all_contracts := all_contracts st @ [c],
                     seen_ocids := seen_ocids st @ [oc]\<rparr>)))))))))))"

text \<open>The loop over the releases of a page: the state when the loop is left, and the
  exception that left it, if any.\<close>

fun process_releases ::
  "'a ingest_state_scheme \<Rightarrow> json list \<Rightarrow> 'a ingest_state_scheme \<times> exn option" where
  "process_releases st [] = (st, None)"
| "process_releases st (release # releases) =
     (case process_release st release of
        Inl e \<Rightarrow> (st, Some e)
      | Inr st' \<Rightarrow> process_releases st' releases)"

subsection \<open>The paginated run\<close>

text \<open>A response: its status code, and what \<open>response.json()\<close> returns (\<open>None\<close> when it
  raises).\<close>

record response =
  status_code :: int
  body :: "json option"

text \<open>What \<open>safe_get\<close> is called with: the first query with its parameters, or a URL.\<close>

datatype request = FirstQuery | Url json

text \<open>
  The state of \<open>fetch_2025_construction_contracts\<close>: the accumulated contracts and seen
  identifiers, the local variables of the loop, the cursor file (\<open>None\<close> when it does
  not exist), and a log of the requests and of the sleeps.
\<close>

record fetch_state = ingest_state +
  next_url :: json
  first_page :: bool
  page_count :: nat
  cursor_file :: "string option"
  request_log :: "request list"
  sleep_log :: "rat list"

text \<open>
  How the loop ended: by a \<open>break\<close> (\<open>DONE\<close>), by an exception caught by
  \<open>except Exception\<close> (\<open>ABORTED\<close>), or not yet, when the environment has given all its
  outcomes (\<open>RUNNING\<close>).
\<close>

datatype run_status = DONE | ABORTED | RUNNING

definition SLEEP_SECONDS :: rat where
  "SLEEP_SECONDS = 7 / 10"

text \<open>
  What follows a successful request in one round of \<open>while True\<close>: the loop stops with
  a status, or goes on. \<open>save_last_cursor\<close> opens the cursor file for writing, which
  empties it, and \<open>f.write\<close> raises \<open>TypeError\<close> when the next link is not a string.
\<close>

datatype 'a step = Stop run_status 'a | Continue 'a

definition advance :: "fetch_state \<Rightarrow> json \<Rightarrow> fetch_state step" where
  "advance st data =
     (case dict_get data ''links'' JNull of
        Inl e \<Rightarrow> Stop ABORTED st
      | Inr links \<Rightarrow>
          if \<not> truthy links then Stop DONE st
          else
            (case dict_get links ''next'' JNull of
               Inl e \<Rightarrow> Stop ABORTED st
             | Inr nxt \<Rightarrow>
                 if \<not> truthy nxt then Stop DONE st
                 else
                   (case nxt of
                      JStr u \<Rightarrow>
                        Continue (st\<lparr>next_url := nxt, cursor_file := Some u,
                                     sleep_log := sleep_log st @ [SLEEP_SECONDS]\<rparr>)
                    | _ \<Rightarrow> Stop ABORTED (st\<lparr>next_url := nxt, cursor_file := Some []\<rparr>))))"

definition process_page :: "fetch_state \<Rightarrow> response \<Rightarrow> fetch_state step" where
  "process_page st resp =
     (if status_code resp \<noteq> 200 then Stop DONE st
      else
        (case body resp of
           None \<Rightarrow> Stop ABORTED st
         | Some data \<Rightarrow>
             (case dict_get data ''releases'' (JList []) of
                Inl e \<Rightarrow> Stop ABORTED st
              | Inr releases \<Rightarrow>
                  if \<not> truthy releases then Stop DONE st
                  else
                    (case py_iter releases of
                       Inl e \<Rightarrow> Stop ABORTED st
                     | Inr rs \<Rightarrow>
                         (case process_releases st rs of
                            (st', Some e) \<Rightarrow> Stop ABORTED st'
                          | (st', None) \<Rightarrow> advance st' data)))))"

text \<open>The loop \<open>while True\<close>, with the default \<open>backoff = 2\<close> of \<open>safe_get\<close>.\<close>

function fetch_loop ::
  "fetch_state \<Rightarrow> response outcome list \<Rightarrow> run_status \<times> fetch_state" where
  "fetch_loop st outs =
     (let g = safe_get MAX_RETRIES 2 outs;
          st1 = st\<lparr>page_count := page_count st + 1,
                   request_log := request_log st @
                     [if first_page st then FirstQuery else Url (next_url st)],
                   sleep_log := sleep_log st @ map of_int (slept g)\<rparr>
      in case result g of
           Pending \<Rightarrow> (RUNNING, st1)
         | RuntimeError \<Rightarrow> (ABORTED, st1)
         | Propagated \<Rightarrow> (ABORTED, st1)
         | Returned resp \<Rightarrow>
             (case process_page (st1\<lparr>first_page := False\<rparr>) resp of
                Stop s st' \<Rightarrow> (s, st')
              | Continue st' \<Rightarrow> fetch_loop st' (remaining g)))"
  by pat_completeness auto
termination
proof (relation "measure (\<lambda>(st, outs). length outs)")
  show "wf (measure (\<lambda>(st, outs). length outs))" by simp
next
  fix st :: fetch_state and outs :: "response outcome list" and g resp
  assume g: "g = safe_get MAX_RETRIES 2 outs" and r: "result g = Returned resp"
  have "result (safe_get_loop n b a sl os) = Returned x \<Longrightarrow>
        length (remaining (safe_get_loop n b a sl os)) < length os"
    for n b a sl and os :: "response outcome list" and x
  proof (induction n b a sl os rule: safe_get_loop.induct)
    case (1 retries backoff attempt sl outs)
    show ?case
    proof (cases "attempt < retries")
      case False
      with "1.prems" show ?thesis by simp
    next
      case True
      show ?thesis
      proof (cases outs)
        case Nil
        with True "1.prems" show ?thesis by simp
      next
        case (Cons out1 rest)
        show ?thesis
        proof (cases out1)
          case (Returns y)
          with True Cons show ?thesis by simp
        next
          case RequestException
          with True Cons "1.prems" have
            "result (safe_get_loop retries backoff (Suc attempt)
               (sl @ [backoff * (int attempt + 1)]) rest) = Returned x" by simp
          from "1.IH" [OF True Cons RequestException this] True Cons RequestException
          show ?thesis by simp
        next
          case OtherException
          with True Cons "1.prems" show ?thesis by simp
        qed
      qed
    qed
  qed
  with g r have "length (remaining g) < length outs" by (simp add: safe_get_def)
  then show "((st', remaining g), (st, outs)) \<in> measure (\<lambda>(st, outs). length outs)" for st' :: fetch_state
    by simp
qed

declare fetch_loop.simps [simp del]

text \<open>\<open>load_last_cursor\<close>: the stripped content of the cursor file, or \<open>None\<close>.\<close>

definition load_last_cursor :: "string option \<Rightarrow> json" where
  "load_last_cursor cursor = (case cursor of None \<Rightarrow> JNull | Some content \<Rightarrow> JStr (strip content))"

text \<open>
  \<open>fetch_2025_construction_contracts\<close>, from the cursor file and the outcomes of the
  requests to the state in which the accumulated contracts are saved.
\<close>

definition fetch_2025_construction_contracts ::
  "string option \<Rightarrow> response outcome list \<Rightarrow> run_status \<times> fetch_state" where
  "fetch_2025_construction_contracts cursor outs =
     fetch_loop
       \<lparr>all_contracts = [], seen_ocids = [],
        next_url = load_last_cursor cursor,
        first_page = (load_last_cursor cursor = JNull),
        page_count = 0, cursor_file = cursor, request_log = [], sleep_log = []\<rparr>
       outs"

section \<open>Data cleaning: \<open>src/clean_data.py\<close>\<close>

subsection \<open>Name normalisation\<close>

text \<open>A word character of \<open>\<bsol>b\<close>: an ASCII letter, a digit or the underscore.\<close>

definition is_word :: "char \<Rightarrow> bool" where
  "is_word c =
     (c \<in> set ''abcdefghijklmnopqrstuvwxyzABCDEFGHIJKLMNOPQRSTUVWXYZ0123456789_'')"

text \<open>
  The four substitutions of \<open>basic_normalize\<close> have the shape
  \<open>re.sub(r'\<bsol>b(alt1|alt2...)\<bsol>b', repl, text)\<close>, where an alternative is a literal word,
  possibly followed by an optional dot. The regex engine tries, at a position that is at
  a word boundary, the alternatives from left to right, an optional dot first with the
  dot and then without it, and takes the first try after which the text is at a word
  boundary again. The alternatives are given here as the list of these tries, in that
  order: \<open>ltd\<bsol>.?|limited\<close> is \<open>[''ltd.'', ''ltd'', ''limited'']\<close>.

  \<open>boundary_after cand rest\<close>: there is a word boundary between the last character of
  the matched text \<open>cand\<close> and the rest of the text.
\<close>

definition boundary_after :: "string \<Rightarrow> string \<Rightarrow> bool" where
  "boundary_after cand rest =
     (is_word (last cand) \<noteq> (case rest of [] \<Rightarrow> False | c # _ \<Rightarrow> is_word c))"

fun match_at :: "string list \<Rightarrow> string \<Rightarrow> string option" where
  "match_at [] s = None"
| "match_at (cand # cands) s =
     (if startswith s cand \<and> boundary_after cand (drop (length cand) s) then Some cand
      else match_at cands s)"

text \<open>
  The scan of \<open>re.sub\<close> from left to right. \<open>skip\<close> is the number of characters of the
  current match still to pass over, \<open>prev\<close> tells whether the character before the
  position is a word character (false at the start of the text).
\<close>

fun re_sub_go :: "string list \<Rightarrow> string \<Rightarrow> nat \<Rightarrow> bool \<Rightarrow> string \<Rightarrow> string" where
  "re_sub_go cands repl skip prev [] = []"
| "re_sub_go cands repl skip prev (c # cs) =
     (if 0 < skip then re_sub_go cands repl (skip - 1) (is_word c) cs
      else if prev \<noteq> is_word c then
        (case match_at cands (c # cs) of
           Some cand \<Rightarrow> repl @ re_sub_go cands repl (length cand - 1) (is_word c) cs
         | None \<Rightarrow> c # re_sub_go cands repl 0 (is_word c) cs)
      else c # re_sub_go cands repl 0 (is_word c) cs)"

definition re_sub_words :: "string list \<Rightarrow> string \<Rightarrow> string \<Rightarrow> string" where
  "re_sub_words cands repl text = re_sub_go cands repl 0 False text"

text \<open>\<open>text.replace('&', 'and')\<close>.\<close>

definition replace_amp :: "string \<Rightarrow> string" where
  "replace_amp s = concat (map (\<lambda>c. if c = CHR ''&'' then ''and'' else [c]) s)"

text \<open>\<open>re.sub(r'\<bsol>s+', ' ', text)\<close>: \<open>in_ws\<close> tells whether the position is inside a run of
  white space that has been replaced already.\<close>

fun collapse_go :: "bool \<Rightarrow> string \<Rightarrow> string" where
  "collapse_go in_ws [] = []"
| "collapse_go in_ws (c # cs) =
     (if is_space c then (if in_ws then collapse_go True cs else CHR '' '' # collapse_go True cs)
      else c # collapse_go False cs)"

definition collapse_ws :: "string \<Rightarrow> string" where
  "collapse_ws s = collapse_go False s"

text \<open>\<open>text.split()\<close>: the maximal runs of characters that are not white space; \<open>cur\<close> is
  the word being read.\<close>

fun split_go :: "string \<Rightarrow> string \<Rightarrow> string list" where
  "split_go cur [] = (if cur = [] then [] else [cur])"
| "split_go cur (c # cs) =
     (if is_space c then (if cur = [] then split_go [] cs else cur # split_go [] cs)
      else split_go (cur @ [c]) cs)"

definition split_ws :: "string \<Rightarrow> string list" where
  "split_ws s = split_go [] s"

text \<open>\<open>basic_normalize\<close>; \<open>None\<close> is a missing name (\<open>pd.isna(text)\<close>).\<close>

definition basic_normalize :: "string option \<Rightarrow> string" where
  "basic_normalize text =
     (case text of
        None \<Rightarrow> []
      | Some s \<Rightarrow>
          (let t = lower (strip s);
               t = re_sub_words [''ltd.'', ''ltd'', ''limited''] ''limited'' t;
               t = re_sub_words [''plc.'', ''plc''] ''plc'' t;
               t = re_sub_words [''co.'', ''co''] ''company'' t;
               t = re_sub_words [''gov.'', ''gov'', ''govt''] ''government'' t;
               t = replace_amp t;
               t = collapse_ws t
           in t))"

text \<open>\<open>acronym\<close>: \<open>''.join(word[0] for word in text.split() if word).upper()\<close>.\<close>

definition acronym :: "string \<Rightarrow> string" where
  "acronym text = upper (concat (map (take 1) (filter (\<lambda>word. word \<noteq> []) (split_ws text))))"

subsection \<open>Clusters and canonical names\<close>

text \<open>The key of a name in \<open>build_canonical_map\<close>.\<close>

definition cluster_key :: "string \<Rightarrow> string" where
  "cluster_key name =
     (let norm = basic_normalize (Some name) in
      if 1 < length (split_ws norm) then acronym norm else upper norm)"

text \<open>\<open>names.dropna()\<close> and \<open>.unique()\<close>, which keeps the order of the first occurrences.\<close>

definition dropna :: "'a option list \<Rightarrow> 'a list" where
  "dropna xs = concat (map (\<lambda>x. case x of None \<Rightarrow> [] | Some v \<Rightarrow> [v]) xs)"

fun unique_go :: "'a list \<Rightarrow> 'a list \<Rightarrow> 'a list" where
  "unique_go seen [] = []"
| "unique_go seen (x # xs) =
     (if x \<in> set seen then unique_go seen xs else x # unique_go (x # seen) xs)"

definition unique :: "'a list \<Rightarrow> 'a list" where
  "unique xs = unique_go [] xs"

text \<open>
  \<open>clusters\<close> is a \<open>defaultdict(list)\<close>: the keys in the order of their first insertion,
  each with its list of variants. \<open>clusters[key].append(name)\<close>:
\<close>

fun cluster_append :: "string \<Rightarrow> string \<Rightarrow> (string \<times> string list) list \<Rightarrow>
    (string \<times> string list) list" where
  "cluster_append key name [] = [(key, [name])]"
| "cluster_append key name ((k, vs) # cl) =
     (if k = key then (k, vs @ [name]) # cl else (k, vs) # cluster_append key name cl)"

definition build_clusters :: "string option list \<Rightarrow> (string \<times> string list) list" where
  "build_clusters names =
     foldl (\<lambda>cl name. cluster_append (cluster_key name) name cl) [] (unique (dropna names))"

text \<open>
  \<open>Counter(variants)\<close>: the distinct elements in the order of their first occurrence,
  with their counts. \<open>most_common(1)\<close> is \<open>max\<close> over the items by count, which keeps the
  first of several maximal items; it is the empty list for an empty counter.
\<close>

fun counter_add :: "'a \<Rightarrow> ('a \<times> nat) list \<Rightarrow> ('a \<times> nat) list" where
  "counter_add x [] = [(x, 1)]"
| "counter_add x ((y, n) # c) = (if y = x then (y, n + 1) # c else (y, n) # counter_add x c)"

definition Counter :: "'a list \<Rightarrow> ('a \<times> nat) list" where
  "Counter xs = foldl (\<lambda>c x. counter_add x c) [] xs"

fun first_max :: "('a \<times> nat) \<Rightarrow> ('a \<times> nat) list \<Rightarrow> ('a \<times> nat)" where
  "first_max best [] = best"
| "first_max best (p # ps) = first_max (if snd best < snd p then p else best) ps"

definition most_common_1 :: "('a \<times> nat) list \<Rightarrow> ('a \<times> nat) list" where
  "most_common_1 c = (case c of [] \<Rightarrow> [] | p # ps \<Rightarrow> [first_max p ps])"

text \<open>\<open>v.replace(" ", "").upper()\<close>.\<close>

definition squeeze_upper :: "string \<Rightarrow> string" where
  "squeeze_upper v = upper (filter (\<lambda>c. c \<noteq> CHR '' '') v)"

text \<open>
  The canonical name of a cluster. \<open>most_common(1)[0][0]\<close> raises \<open>IndexError\<close> on an empty
  list: that is \<open>None\<close>.
\<close>

definition canonical_of :: "string \<Rightarrow> string list \<Rightarrow> string option" where
  "canonical_of key variants =
     (let acronym_matches = filter (\<lambda>v. squeeze_upper v = key) variants in
      case acronym_matches of
        m # _ \<Rightarrow> Some m
      | [] \<Rightarrow> (case most_common_1 (Counter variants) of
                 [] \<Rightarrow> None
               | p # _ \<Rightarrow> Some (fst p)))"

text \<open>The rows \<open>(buyer_name_raw, buyer_name_canonical)\<close>, cluster by cluster.\<close>

fun canonical_rows :: "(string \<times> string list) list \<Rightarrow> (string \<times> string) list option" where
  "canonical_rows [] = Some []"
| "canonical_rows ((key, variants) # cl) =
     (case canonical_of key variants of
        None \<Rightarrow> None
      | Some canonical \<Rightarrow>
          (case canonical_rows cl of
             None \<Rightarrow> None
           | Some rows \<Rightarrow> Some (map (\<lambda>v. (v, canonical)) variants @ rows)))"

definition build_canonical_map :: "string option list \<Rightarrow> (string \<times> string) list option" where
  "build_canonical_map names = canonical_rows (build_clusters names)"

subsection \<open>The cleaning run\<close>

text \<open>\<open>clean_financials\<close>; \<open>ValueError\<close> of \<open>float\<close> gives \<open>0.0\<close>.\<close>

definition clean_financials :: "cell \<Rightarrow> rat" where
  "clean_financials val =
     (case val of
        NaN \<Rightarrow> 0
      | Str s \<Rightarrow> (case float_of_digits (strip_non_numeric s) of Some x \<Rightarrow> x | None \<Rightarrow> 0))"

text \<open>A row of the cleaned table: the contract and the added column \<open>buyer_name_raw\<close>.\<close>

record ('v, 'a) cleaned = "('v, 'a) contract" +
  buyer_name_raw :: 'v

text \<open>
  \<open>df.merge(buyer_map, on="buyer_name_raw", how="left")\<close>: a row of the table is paired
  with the canonical name of each row of the map that has its raw name, in the order of
  the map, and with a missing canonical name when there is none.
\<close>

definition merge_row :: "(string \<times> string) list \<Rightarrow> table_row \<Rightarrow> (table_row \<times> cell) list" where
  "merge_row buyer_map row =
     (let matches = filter (\<lambda>m. Str (fst m) = buyer_name row) buyer_map in
      if matches = [] then [(row, NaN)] else map (\<lambda>m. (row, Str (snd m))) matches)"

text \<open>
  The row after \<open>df["buyer_name"] = df["buyer_name_canonical"]\<close> and
  \<open>df["value_amount"].apply(clean_financials)\<close>.
\<close>

definition cleaned_row :: "table_row \<Rightarrow> cell \<Rightarrow> (cell, rat) cleaned" where
  "cleaned_row row canonical =
     \<lparr>ocid = ocid row, title = title row, description = description row,
      cpv_code = cpv_code row, value_amount = clean_financials (value_amount row),
      currency = currency row, published_date = published_date row,
      buyer_name = canonical, buyer_country = buyer_country row,
      tender_status = tender_status row, source = source row,
      buyer_name_raw = buyer_name row\<rparr>"

text \<open>\<open>df.drop_duplicates(subset=["ocid"])\<close>: the first row of each \<open>ocid\<close> is kept.\<close>

fun drop_duplicates_go :: "'k list \<Rightarrow> ('r \<Rightarrow> 'k) \<Rightarrow> 'r list \<Rightarrow> 'r list" where
  "drop_duplicates_go seen key [] = []"
| "drop_duplicates_go seen key (r # rs) =
     (if key r \<in> set seen then drop_duplicates_go seen key rs
      else r # drop_duplicates_go (key r # seen) key rs)"

definition drop_duplicates :: "('r \<Rightarrow> 'k) \<Rightarrow> 'r list \<Rightarrow> 'r list" where
  "drop_duplicates key rs = drop_duplicates_go [] key rs"

text \<open>
  \<open>run\<close>, from the table read from the input file to the table written as the cleaned
  output. An empty \<open>buyer_map\<close> is a data frame without columns, on which the merge
  raises \<open>KeyError\<close>.
\<close>

definition run :: "table_row list \<Rightarrow> exn + (cell, rat) cleaned list" where
  "run df =
     (case build_canonical_map (map (\<lambda>row. case buyer_name row of NaN \<Rightarrow> None | Str s \<Rightarrow> Some s) df) of
        None \<Rightarrow> Inl IndexError
      | Some buyer_map \<Rightarrow>
          if buyer_map = [] then Inl KeyError
          else
            (let merged = concat (map (merge_row buyer_map) df);
                 cleaned = map (\<lambda>(row, canonical). cleaned_row row canonical) merged;
                 deduped = drop_duplicates ocid cleaned
             in Inr (filter (\<lambda>r. 0 < value_amount r) deduped)))"

section \<open>Auxiliary definitions for the properties\<close>

text \<open>The CO2e value of an output row, when the row has one: the column is present and
  is a number.\<close>

definition computed_co2e :: "result_row \<Rightarrow> rat option" where
  "computed_co2e r =
     (case calc r of
        None \<Rightarrow> None
      | Some c \<Rightarrow> (case est_co2e_tonnes c of FNaN \<Rightarrow> None | Fin v \<Rightarrow> Some v))"


text \<open>Sample rows for the concrete instances below.\<close>

definition example_row :: "string \<Rightarrow> string \<Rightarrow> string \<Rightarrow> table_row" where
  "example_row t d a =
     \<lparr>ocid = Str ''ocds-1'', title = Str t, description = Str d, cpv_code = Str ''45000000'',
      value_amount = Str a, currency = Str ''GBP'', published_date = NaN, buyer_name = NaN,
      buyer_country = Str ''GB'', tender_status = NaN, source = Str ''UK Contracts Finder''\<rparr>"

definition example_material :: "string \<Rightarrow> string \<Rightarrow> rat \<Rightarrow> rat \<Rightarrow> material" where
  "example_material i k p f =
     \<lparr>material_id = Str i, material_name = Str i, keywords_col = Str k,
      composite_price_gbp_per_tonne = Fin p, carbon_factor_kgco2e_per_tonne = Fin f,
      ice_source_ref = NaN\<rparr>"

definition example_buyer_row :: "string \<Rightarrow> string \<Rightarrow> string \<Rightarrow> table_row" where
  "example_buyer_row oc buyer a =
     \<lparr>ocid = Str oc, title = Str ''Road'', description = Str ''works'',
      cpv_code = Str ''45000000'', value_amount = Str a, currency = Str ''GBP'',
      published_date = NaN, buyer_name = Str buyer, buyer_country = Str ''GB'',
      tender_status = NaN, source = Str ''UK Contracts Finder''\<rparr>"

text \<open>The invariant of the clusters while \<open>build_canonical_map\<close> fills them.\<close>

definition cluster_inv :: "(string \<times> string list) list \<Rightarrow> bool" where
  "cluster_inv cl \<longleftrightarrow>
     distinct (map fst cl) \<and> distinct (concat (map snd cl)) \<and>
     (\<forall>(k, vs) \<in> set cl. vs \<noteq> [] \<and> (\<forall>v \<in> set vs. cluster_key v = k))"


definition dedup_inv :: "(json, json) contract list \<Rightarrow> json list \<Rightarrow> bool" where
  "dedup_inv cs seen \<longleftrightarrow>
     seen = map ocid cs \<and> distinct seen \<and> (\<forall>x \<in> set seen. truthy x \<and> hashable x)"


definition example_release :: "string \<Rightarrow> string \<Rightarrow> json" where
  "example_release oc code =
     JObj [(''ocid'', JStr oc),
           (''tender'', JObj [(''title'', JStr ''Road''),
                              (''classification'', JObj [(''id'', JStr code)])])]"

definition example_page :: "json list \<Rightarrow> string \<Rightarrow> response outcome" where
  "example_page rs nxt =
     Returns \<lparr>status_code = 200,
              body = Some (JObj [(''releases'', JList rs),
                                 (''links'', JObj [(''next'', JStr nxt)])])\<rparr>"

definition example_contract :: "string \<Rightarrow> string \<Rightarrow> (json, json) contract" where
  "example_contract oc cpv =
     \<lparr>ocid = JStr oc, title = JStr ''Road'', description = JStr [], cpv_code = JStr cpv,
      value_amount = JInt 0, currency = JStr ''GBP'', published_date = JNull,
      buyer_name = JStr ''Unknown'', buyer_country = JStr ''GB'', tender_status = JNull,
      source = JStr ''UK Contracts Finder''\<rparr>"

section \<open>Properties\<close>

subsection \<open>Rounding to the nearest double\<close>

lemma bit_length_upper: "n < 2 ^ bit_length n"
proof (induction n rule: bit_length.induct)
  case (1 n)
  show ?case
  proof (cases "n = 0")
    case True
    then show ?thesis by (simp add: bit_length.simps)
  next
    case False
    with 1 have "n div 2 < 2 ^ bit_length (n div 2)" by simp
    then have "n < 2 * 2 ^ bit_length (n div 2)" by linarith
    with False show ?thesis by (simp add: bit_length.simps [of n])
  qed
qed


lemma bit_length_lower: "0 < n \<Longrightarrow> 2 ^ (bit_length n - 1) \<le> n"
proof (induction n rule: bit_length.induct)
  case (1 n)
  then have n: "n \<noteq> 0" by simp
  show ?case
  proof (cases "n div 2 = 0")
    case True
    with n show ?thesis by (simp add: bit_length.simps [of n] bit_length.simps [of 0])
  next
    case False
    with 1 n have ih: "2 ^ (bit_length (n div 2) - 1) \<le> n div 2" by simp
    from False have "bit_length (n div 2) \<noteq> 0" by (simp add: bit_length.simps [of "n div 2"])
    then obtain k where k: "bit_length (n div 2) = Suc k" by (cases "bit_length (n div 2)") auto
    with ih have "2 * 2 ^ k \<le> n" by simp
    with n k show ?thesis by (simp add: bit_length.simps [of n])
  qed
qed



lemma inverse_bound: "0 < (a::rat) \<Longrightarrow> 0 < p \<Longrightarrow> 1 / a \<le> p \<Longrightarrow> 1 / p \<le> a"
  by (simp add: field_simps)

lemma floor_log2_le:
  assumes "0 < a"
  shows "2 powi (floor_log2 a) \<le> a"
proof (cases "1 \<le> a")
  case True
  define n where "n = nat \<lfloor>a\<rfloor>"
  from True have p: "0 < n" by (simp add: n_def)
  from bit_length_lower [OF p] have "(2::nat) ^ (bit_length n - 1) \<le> n" .
  then have "(of_nat (2 ^ (bit_length n - 1)) :: rat) \<le> of_nat n"
    by (simp only: of_nat_le_iff)
  also from True have "(of_nat n :: rat) = of_int \<lfloor>a\<rfloor>" by (simp add: n_def)
  also have "\<dots> \<le> a" by (rule of_int_floor_le)
  finally have le: "(2::rat) ^ (bit_length n - 1) \<le> a" by simp
  from p have "bit_length n \<noteq> 0" by (simp add: bit_length.simps [of n])
  then have "int (bit_length n) - 1 = int (bit_length n - 1)" by simp
  then have "floor_log2 a = int (bit_length n - 1)"
    using True by (simp only: floor_log2_def n_def if_True)
  with le show ?thesis by (simp only: power_int_of_nat)
next
  case False
  define c where "c = \<lceil>1 / a\<rceil>"
  define b where "b = bit_length (nat (c - 1))"
  have fl: "floor_log2 a = - int b"
    using False by (simp only: floor_log2_def b_def c_def if_False)
  from False assms have "1 < 1 / a" by simp
  also have "1 / a \<le> of_int c" unfolding c_def by (rule le_of_int_ceiling)
  finally have "(of_int 1 :: rat) < of_int c" by simp
  then have c1: "1 < c" by (simp only: of_int_less_iff)
  have "nat (c - 1) < 2 ^ b" unfolding b_def by (rule bit_length_upper)
  then have "int (nat (c - 1)) < int (2 ^ b)" by (simp only: of_nat_less_iff)
  with c1 have "c \<le> 2 ^ b" by simp
  then have "(of_int c :: rat) \<le> of_int (2 ^ b)" by (simp only: of_int_le_iff)
  then have "(of_int c :: rat) \<le> 2 ^ b" by simp
  with \<open>1 / a \<le> of_int c\<close> have "1 / a \<le> 2 ^ b" by (rule order_trans)
  have "(0::rat) < 2 ^ b" by simp
  from assms this \<open>1 / a \<le> 2 ^ b\<close> have "1 / 2 ^ b \<le> a" by (rule inverse_bound)
  then show ?thesis unfolding fl by (simp only: power_int_minus_divide power_int_of_nat)
qed


lemma round_half_even_of_int: "round_half_even (of_int k) = k"
  by (simp add: round_half_even_def)


lemma round_half_even_nonneg: "0 \<le> y \<Longrightarrow> 0 \<le> round_half_even y"
proof -
  assume "0 \<le> y"
  then have "0 \<le> \<lfloor>y\<rfloor>" by simp
  then show ?thesis by (auto simp: round_half_even_def Let_def)
qed


lemma to_double_nonneg: "0 \<le> x \<Longrightarrow> 0 \<le> to_double x"
proof -
  assume x: "0 \<le> x"
  have "0 \<le> of_int (round_half_even (\<bar>x\<bar> / 2 powi q)) * (2 powi q :: rat)" for q
  proof -
    have "0 \<le> \<bar>x\<bar> / 2 powi q" by (simp add: zero_le_power_int)
    then have "0 \<le> round_half_even (\<bar>x\<bar> / 2 powi q)" by (rule round_half_even_nonneg)
    then show ?thesis by (simp add: zero_le_power_int)
  qed
  with x show ?thesis by (simp add: to_double_def Let_def)
qed



lemma to_double_exact:
  assumes m: "0 < m" "m < 2 ^ 53" and k: "- 1074 \<le> k"
  shows "to_double (of_int m * 2 powi k) = of_int m * 2 powi k"
proof -
  define x :: rat where "x = of_int m * 2 powi k"
  have pos: "0 < x" using m(1) by (simp add: x_def zero_less_power_int)
  define q where "q = max (floor_log2 x - 52) (- 1074)"
  have "2 powi (floor_log2 x) \<le> x" using pos by (rule floor_log2_le)
  also have "x < 2 ^ 53 * 2 powi k"
  proof -
    from m(2) have "(of_int m :: rat) < of_int (2 ^ 53)" by (simp only: of_int_less_iff)
    then show ?thesis by (simp add: x_def zero_less_power_int)
  qed
  also have "\<dots> = 2 powi (53 + k)" by (simp add: power_int_add)
  finally have lt: "(2::rat) powi (floor_log2 x) < 2 powi (53 + k)" .
  have "floor_log2 x < 53 + k"
  proof (rule ccontr)
    assume "\<not> floor_log2 x < 53 + k"
    then have "53 + k \<le> floor_log2 x" by simp
    then have "(2::rat) powi (53 + k) \<le> 2 powi (floor_log2 x)"
      by (intro power_int_increasing) simp_all
    with lt show False by simp
  qed
  with k have "q \<le> k" by (simp add: q_def)
  then obtain j where j: "k = q + int j" using zle_iff_zadd by blast
  have pk: "(2::rat) powi k = 2 powi q * 2 ^ j"
    unfolding j by (simp add: power_int_add)
  have d: "x / 2 powi q = of_int (m * 2 ^ j)"
    unfolding x_def pk by simp
  have "to_double x = of_int (round_half_even (x / 2 powi q)) * 2 powi q"
    using pos by (simp add: to_double_def Let_def abs_of_pos q_def)
  also have "\<dots> = of_int (m * 2 ^ j) * 2 powi q"
    by (simp only: d round_half_even_of_int)
  also have "\<dots> = of_int m * (2 powi q * 2 ^ j)" by simp
  also have "\<dots> = x" unfolding x_def pk ..
  finally show ?thesis unfolding x_def .
qed

lemma to_double_of_int: "0 \<le> n \<Longrightarrow> n < 2 ^ 53 \<Longrightarrow> to_double (of_int n) = of_int n"
  using to_double_exact [of n 0] by (cases "n = 0") (simp_all add: to_double_def)



lemma round_half_even_frac:
  assumes "0 < d"
  shows "round_half_even (of_int n / of_int d) =
     (if 2 * (n mod d) < d then n div d
      else if d < 2 * (n mod d) then n div d + 1
      else if even (n div d) then n div d else n div d + 1)"
proof -
  have f: "\<lfloor>(of_int n :: rat) / of_int d\<rfloor> = n div d" by (simp add: floor_divide_of_int_eq)
  have "(of_int n :: rat) = of_int (n div d) * of_int d + of_int (n mod d)"
    by (metis of_int_add of_int_mult div_mult_mod_eq)
  then have r: "(of_int n :: rat) / of_int d - of_int (n div d) = of_int (n mod d) / of_int d"
    using assms by (simp add: field_simps)
  have "(of_int (n mod d) / of_int d < (1 / 2 :: rat)) = (2 * (n mod d) < d)"
  proof -
    have "(of_int (n mod d) / of_int d < (1 / 2 :: rat)) = ((of_int (2 * (n mod d)) :: rat) < of_int d)"
      using assms by (simp add: field_simps)
    then show ?thesis by (simp only: of_int_less_iff)
  qed
  moreover have "((1 / 2 :: rat) < of_int (n mod d) / of_int d) = (d < 2 * (n mod d))"
  proof -
    have "((1 / 2 :: rat) < of_int (n mod d) / of_int d) = ((of_int d :: rat) < of_int (2 * (n mod d)))"
      using assms by (simp add: field_simps)
    then show ?thesis by (simp only: of_int_less_iff)
  qed
  ultimately show ?thesis
    unfolding round_half_even_def Let_def f r by simp
qed



text \<open>Evaluation of the rounding of a quotient of integers that is at least 1.\<close>

lemma to_double_ratio:
  assumes d: "0 < d" "d \<le> n"
    and e: "int (bit_length (nat (n div d))) - 1 = e"
    and q: "max (e - 52) (- 1074) = - int j"
  shows "to_double (of_int n / of_int d) =
         of_int (if 2 * ((n * 2 ^ j) mod d) < d then (n * 2 ^ j) div d
                 else if d < 2 * ((n * 2 ^ j) mod d) then (n * 2 ^ j) div d + 1
                 else if even ((n * 2 ^ j) div d) then (n * 2 ^ j) div d
                 else (n * 2 ^ j) div d + 1) / 2 ^ j"
proof -
  define x :: rat where "x = of_int n / of_int d"
  from d have ge: "1 \<le> x" by (simp add: x_def)
  then have pos: "0 < x" by simp
  have "floor_log2 x = int (bit_length (nat \<lfloor>x\<rfloor>)) - 1"
    using ge by (simp add: floor_log2_def)
  also have "\<lfloor>x\<rfloor> = n div d" by (simp add: x_def floor_divide_of_int_eq)
  finally have fl: "floor_log2 x = e" using e by simp
  have "x / 2 powi (- int j) = of_int (n * 2 ^ j) / of_int d"
    by (simp add: x_def power_int_minus_divide)
  then have "to_double x = of_int (round_half_even (of_int (n * 2 ^ j) / of_int d)) / 2 ^ j"
    using pos by (simp add: to_double_def Let_def abs_of_pos fl q power_int_minus_divide)
  then show ?thesis
    unfolding x_def round_half_even_frac [OF d(1)] .
qed

lemma round_half_even_numeral: "round_half_even (numeral n) = numeral n"
  using round_half_even_of_int [of "numeral n"] by simp

text \<open>Numbers of the examples that are doubles.\<close>

lemma to_double_examples:
  "to_double 100000 = 100000" "to_double 200000 = 200000" "to_double 12000 = 12000"
  "to_double 2000 = 2000" "to_double 200 = 200" "to_double 150 = 150" "to_double 250 = 250"
  "to_double (9999 / 2) = 9999 / 2"
  using to_double_of_int [of 100000] to_double_of_int [of 200000] to_double_of_int [of 12000]
    to_double_of_int [of 2000] to_double_of_int [of 200] to_double_of_int [of 150]
    to_double_of_int [of 250] to_double_exact [of 9999 "- 1"]
  by simp_all

text \<open>The roundings of the computation with spend 200000, price 11 and factor 55.\<close>

lemma to_double_threshold:
  "to_double (200000 / 11) = 4997780126254545 / 274877906944"
  "to_double (274877906943999975 / 274877906944) = 8589934591999999 / 8589934592"
  "to_double (8589934591999999 / 8589934592000) = 8796093022207999 / 8796093022208"
  using to_double_ratio [of 11 200000 14 38]
    to_double_ratio [of 274877906944 274877906943999975 19 33]
    to_double_ratio [of 8589934592000 8589934591999999 9 43]
  by (simp_all add: bit_length.simps)

subsection \<open>Retry exhaustion\<close>

lemma safe_get_loop_all_fail:
  "attempt \<le> retries \<Longrightarrow> retries - attempt \<le> length outs \<Longrightarrow>
   (\<forall>i < retries - attempt. outs ! i = RequestException) \<Longrightarrow>
   safe_get_loop retries backoff attempt sl outs =
     \<lparr>result = RuntimeError,
      slept = sl @ map (\<lambda>k. backoff * (int k + 1)) [attempt ..< retries],
      attempts = retries,
      remaining = drop (retries - attempt) outs\<rparr>"
proof (induction retries backoff attempt sl outs rule: safe_get_loop.induct)
  case (1 retries backoff attempt sl outs)
  show ?case
  proof (cases "attempt < retries")
    case False
    with "1.prems" have "attempt = retries" by simp
    then show ?thesis by simp
  next
    case True
    with "1.prems" obtain rest where outs: "outs = RequestException # rest"
      by (cases outs) (auto dest: spec [of _ 0])
    have fails: "\<forall>i < retries - Suc attempt. rest ! i = RequestException"
    proof (intro allI impI)
      fix i assume "i < retries - Suc attempt"
      then have "Suc i < retries - attempt" by simp
      with "1.prems"(3) have "outs ! Suc i = RequestException" by blast
      then show "rest ! i = RequestException" by (simp add: outs)
    qed
    have len: "retries - Suc attempt \<le> length rest"
      using "1.prems"(2) True by (simp add: outs)
    have ih: "safe_get_loop retries backoff (Suc attempt)
                (sl @ [backoff * (int attempt + 1)]) rest =
              \<lparr>result = RuntimeError,
               slept = (sl @ [backoff * (int attempt + 1)]) @
                       map (\<lambda>k. backoff * (int k + 1)) [Suc attempt ..< retries],
               attempts = retries,
               remaining = drop (retries - Suc attempt) rest\<rparr>"
      using "1.IH" [OF True outs refl] True len fails by simp
    have upt: "[attempt ..< retries] = attempt # [Suc attempt ..< retries]"
      using True by (simp add: upt_conv_Cons)
    have "retries - attempt = Suc (retries - Suc attempt)"
      using True by simp
    then have dr: "drop (retries - attempt) (RequestException # rest) =
                   drop (retries - Suc attempt) rest"
      by simp
    have "safe_get_loop retries backoff attempt sl outs =
          safe_get_loop retries backoff (Suc attempt)
            (sl @ [backoff * (int attempt + 1)]) rest"
      using True
      by (simp add: safe_get_loop.simps [of retries backoff attempt sl "RequestException # rest"]
          outs del: safe_get_loop.simps)
    also note ih
    finally show ?thesis
      by (simp only: outs upt dr append_assoc list.map append_Cons append_Nil)
  qed
qed

text \<open>
  Claim C8. When each of the \<open>MAX_RETRIES = 5\<close> calls of \<open>requests.get\<close> raises a
  \<open>RequestException\<close>, \<open>safe_get\<close> (with the default \<open>backoff = 2\<close>, or any other)
  sleeps \<open>backoff * k\<close> seconds after the \<open>k\<close>-th failure, for \<open>k = 1, ..., 5\<close>, makes
  exactly five calls and no more (the rest of the environment is left untouched), and
  ends by raising \<open>RuntimeError\<close>: it neither returns a response nor keeps looping.
\<close>

theorem safe_get_exhaustion:
  "5 \<le> length outs \<Longrightarrow> (\<forall>i < 5. outs ! i = RequestException) \<Longrightarrow>
   safe_get MAX_RETRIES backoff outs =
     \<lparr>result = RuntimeError,
      slept = [backoff * 1, backoff * 2, backoff * 3, backoff * 4, backoff * 5],
      attempts = 5,
      remaining = drop 5 outs\<rparr>"
proof -
  assume a: "5 \<le> length outs" "\<forall>i < 5. outs ! i = RequestException"
  have u: "[0 ..< 5] = [0, 1, 2, 3, 4::nat]"
    by (simp add: upt_conv_Cons)
  have "safe_get_loop 5 backoff 0 [] outs =
     \<lparr>result = RuntimeError,
      slept = [] @ map (\<lambda>k. backoff * (int k + 1)) [0 ..< 5],
      attempts = 5,
      remaining = drop (5 - 0) outs\<rparr>"
    using a by (intro safe_get_loop_all_fail) auto
  then show ?thesis
    by (simp add: safe_get_def MAX_RETRIES_def u)
qed

theorem safe_get_exhaustion_witness:
  "safe_get MAX_RETRIES 2
     (replicate 5 RequestException @ [Returns (200::nat)]) =
     \<lparr>result = RuntimeError, slept = [2, 4, 6, 8, 10], attempts = 5,
      remaining = [Returns 200]\<rparr>"
  using safe_get_exhaustion [of "replicate 5 RequestException @ [Returns (200::nat)]" 2]
  by (simp add: nth_append numeral_eq_Suc less_Suc_eq)

subsection \<open>The risk engine\<close>

lemma startswith_iff: "startswith s p \<longleftrightarrow> (\<exists>ss. s = p @ ss)"
  by (induction s p rule: startswith.induct) auto

lemma contains_iff: "contains t k \<longleftrightarrow> (\<exists>ps ss. t = ps @ k @ ss)"
proof (induction t)
  case Nil
  then show ?case by auto
next
  case (Cons c cs)
  show ?case
  proof
    assume "contains (c # cs) k"
    then consider "startswith (c # cs) k" | "contains cs k" by auto
    then show "\<exists>ps ss. c # cs = ps @ k @ ss"
    proof cases
      case 1
      then obtain ss where "c # cs = k @ ss" by (auto simp: startswith_iff)
      then have "c # cs = [] @ k @ ss" by simp
      then show ?thesis by blast
    next
      case 2
      with Cons obtain ps ss where "cs = ps @ k @ ss" by auto
      then have "c # cs = (c # ps) @ k @ ss" by simp
      then show ?thesis by blast
    qed
  next
    assume "\<exists>ps ss. c # cs = ps @ k @ ss"
    then obtain ps ss where e: "c # cs = ps @ k @ ss" by auto
    show "contains (c # cs) k"
    proof (cases ps)
      case Nil
      with e have "startswith (c # cs) k" by (auto simp: startswith_iff)
      then show ?thesis by simp
    next
      case (Cons p ps')
      with e have "cs = ps' @ k @ ss" by simp
      with Cons.IH have "contains cs k" by auto
      then show ?thesis by simp
    qed
  qed
qed

lemma round2_nonneg: "0 \<le> x \<Longrightarrow> round2 (Fin x) = Fin v \<Longrightarrow> 0 \<le> v"
proof -
  assume x: "0 \<le> x" and r: "round2 (Fin x) = Fin v"
  from x have "0 \<le> x * 100" by simp
  then have "0 \<le> round_half_even (x * 100)" by (rule round_half_even_nonneg)
  then have "(0::rat) \<le> of_int (round_half_even (x * 100)) / 100" by simp
  then have "0 \<le> to_double (of_int (round_half_even (x * 100)) / 100)"
    by (rule to_double_nonneg)
  with r show ?thesis by (simp add: round2_def)
qed

lemma set_run_pqe_engine:
  "set (run_pqe_engine contracts materials) = process_contract materials ` set contracts"
  by (simp add: run_pqe_engine_def Let_def)

lemma process_contract_input_row: "input_row (process_contract materials row) = row"
  by (simp add: process_contract_def Let_def split: option.splits)

lemma process_contract_low:
  "clean_currency (value_amount row) < MIN_SPEND_GBP \<Longrightarrow>
   process_contract materials row =
     \<lparr>input_row = row, status = SKIPPED_LOW_VALUE, ref_price_factor = None, calc = None\<rparr>"
  by (simp add: process_contract_def Let_def)

lemma calc_nonneg:
  assumes "calc (process_contract materials row) = Some c" "est_co2e_tonnes c = Fin v"
  shows "0 \<le> v"
proof -
  let ?s = "clean_currency (value_amount row)"
  from assms(1) have s: "MIN_SPEND_GBP \<le> ?s"
    by (auto simp: process_contract_def Let_def split: if_splits)
  from assms(1) s obtain mat where
    m: "detect_material (full_text row) materials = Some mat"
    by (auto simp: process_contract_def Let_def split: if_splits option.splits)
  let ?p = "composite_price_gbp_per_tonne mat" and ?f = "carbon_factor_kgco2e_per_tonne mat"
  from assms(1) s m have g: "\<not> fl_le ?p 0" "\<not> fl_le ?f 0"
    and c: "est_co2e_tonnes c = round2 (est_co2e (compute_estimate ?s ?p ?f))"
    by (auto simp: process_contract_def Let_def split: if_splits)
  from c assms(2) obtain p f where pf: "?p = Fin p" "?f = Fin f"
    by (cases ?p; cases ?f)
       (auto simp: compute_estimate_def Let_def fl_div_def fl_mul_def round2_def)
  with g have pos: "0 < p" "0 < f" by (auto simp: fl_le_def)
  from s have "0 \<le> ?s" by (simp add: MIN_SPEND_GBP_def)
  with pos have "0 \<le> ?s / p" by simp
  then have "0 \<le> to_double (?s / p)" by (rule to_double_nonneg)
  with pos have "0 \<le> to_double (?s / p) * f" by simp
  then have "0 \<le> to_double (to_double (?s / p) * f)" by (rule to_double_nonneg)
  then have "0 \<le> to_double (to_double (?s / p) * f) / 1000" by simp
  then have n: "0 \<le> to_double (to_double (to_double (?s / p) * f) / 1000)"
    by (rule to_double_nonneg)
  from pf have "est_co2e (compute_estimate ?s ?p ?f) =
      Fin (to_double (to_double (to_double (?s / p) * f) / 1000))"
    by (simp add: compute_estimate_def Let_def fl_div_def fl_mul_def)
  with c assms(2) have "round2 (Fin (to_double (to_double (to_double (?s / p) * f) / 1000))) = Fin v"
    by simp
  with n show ?thesis by (rule round2_nonneg)
qed

lemma sort_helper_computed:
  "computed_co2e r = Some v \<Longrightarrow> sort_helper r = v"
  "computed_co2e r = None \<Longrightarrow> sort_helper r = - 1"
  by (auto simp: computed_co2e_def sort_helper_def split: option.splits pyfloat.splits)

lemma sorted_run_pqe_engine:
  "sorted (map (\<lambda>r. - sort_helper r) (run_pqe_engine contracts materials))"
proof (cases "list_ex (\<lambda>r. calc r \<noteq> None) (map (process_contract materials) contracts)")
  case True
  then show ?thesis by (simp add: run_pqe_engine_def Let_def)
next
  case False
  then have m1: "\<forall>row \<in> set contracts. sort_helper (process_contract materials row) = - 1"
    by (auto simp: list_ex_iff sort_helper_def)
  have "sorted (map (\<lambda>r. - sort_helper r) (map (process_contract materials) contracts))"
    unfolding sorted_wrt_iff_nth_less
  proof (intro allI impI)
    fix i j
    let ?xs = "map (process_contract materials) contracts"
    assume "i < j" "j < length (map (\<lambda>r. - sort_helper r) ?xs)"
    then have ij: "i < length contracts" "j < length contracts" by simp_all
    then have "contracts ! i \<in> set contracts" "contracts ! j \<in> set contracts"
      by simp_all
    with m1 ij show "map (\<lambda>r. - sort_helper r) ?xs ! i \<le> map (\<lambda>r. - sort_helper r) ?xs ! j"
      by simp
  qed
  with False show ?thesis by (simp only: run_pqe_engine_def Let_def if_False)
qed

lemma row_matches_iff:
  "row_matches text row \<longleftrightarrow>
     (\<exists>k \<in> set (row_keywords row). k \<noteq> [] \<and> (\<exists>ps ss. text = ps @ k @ ss))"
  by (simp add: row_matches_def list_ex_iff contains_iff)

lemma scan_rows_None_iff:
  "scan_rows text rows = None \<longleftrightarrow> (\<forall>r \<in> set rows. is_gen_row r \<or> \<not> row_matches text r)"
  by (induction rows) auto

lemma scan_rows_Some_iff:
  "scan_rows text rows = Some r \<longleftrightarrow>
     (\<exists>pre post. rows = pre @ r # post \<and> \<not> is_gen_row r \<and> row_matches text r \<and>
        (\<forall>x \<in> set pre. is_gen_row x \<or> \<not> row_matches text x))"
proof (induction rows)
  case Nil
  then show ?case by simp
next
  case (Cons a rows)
  show ?case
  proof (cases "is_gen_row a \<or> \<not> row_matches text a")
    case True
    then have s: "scan_rows text (a # rows) = scan_rows text rows" by auto
    show ?thesis
    proof
      assume "scan_rows text (a # rows) = Some r"
      with s Cons.IH obtain pre post where
        "rows = pre @ r # post" "\<not> is_gen_row r" "row_matches text r"
        "\<forall>x \<in> set pre. is_gen_row x \<or> \<not> row_matches text x" by auto
      with True have "a # rows = (a # pre) @ r # post \<and> \<not> is_gen_row r \<and> row_matches text r \<and>
        (\<forall>x \<in> set (a # pre). is_gen_row x \<or> \<not> row_matches text x)" by auto
      then show "\<exists>pre post. a # rows = pre @ r # post \<and> \<not> is_gen_row r \<and> row_matches text r \<and>
        (\<forall>x \<in> set pre. is_gen_row x \<or> \<not> row_matches text x)" by blast
    next
      assume "\<exists>pre post. a # rows = pre @ r # post \<and> \<not> is_gen_row r \<and> row_matches text r \<and>
        (\<forall>x \<in> set pre. is_gen_row x \<or> \<not> row_matches text x)"
      then obtain pre post where p: "a # rows = pre @ r # post" "\<not> is_gen_row r"
        "row_matches text r" "\<forall>x \<in> set pre. is_gen_row x \<or> \<not> row_matches text x" by auto
      with True obtain pre' where "pre = a # pre'" by (cases pre) auto
      with p have "rows = pre' @ r # post \<and> \<not> is_gen_row r \<and> row_matches text r \<and>
        (\<forall>x \<in> set pre'. is_gen_row x \<or> \<not> row_matches text x)" by auto
      with Cons.IH s show "scan_rows text (a # rows) = Some r" by auto
    qed
  next
    case False
    then have s: "scan_rows text (a # rows) = Some a" by auto
    show ?thesis
    proof
      assume "scan_rows text (a # rows) = Some r"
      with s have "r = a" by simp
      with False have "a # rows = [] @ r # rows \<and> \<not> is_gen_row r \<and> row_matches text r \<and>
        (\<forall>x \<in> set []. is_gen_row x \<or> \<not> row_matches text x)" by auto
      then show "\<exists>pre post. a # rows = pre @ r # post \<and> \<not> is_gen_row r \<and> row_matches text r \<and>
        (\<forall>x \<in> set pre. is_gen_row x \<or> \<not> row_matches text x)" by blast
    next
      assume "\<exists>pre post. a # rows = pre @ r # post \<and> \<not> is_gen_row r \<and> row_matches text r \<and>
        (\<forall>x \<in> set pre. is_gen_row x \<or> \<not> row_matches text x)"
      then obtain pre post where p: "a # rows = pre @ r # post"
        "\<forall>x \<in> set pre. is_gen_row x \<or> \<not> row_matches text x" by auto
      with False have "pre = []" by (cases pre) auto
      with p s show "scan_rows text (a # rows) = Some r" by simp
    qed
  qed
qed

lemma detect_material_exact_ids:
  assumes "\<forall>r \<in> set ref_df. is_gen_row r \<longrightarrow> material_id r = Str ''MAT_GEN''"
  shows "detect_material text ref_df =
     (case scan_rows (lower text) ref_df of
        Some row \<Rightarrow> Some row
      | None \<Rightarrow> (case filter is_gen_row ref_df of [] \<Rightarrow> None | gen # _ \<Rightarrow> Some gen))"
proof -
  have "material_id r = Str ''MAT_GEN'' \<Longrightarrow> is_gen_row r" for r
    by (simp add: is_gen_row_def cell_str_def upper_def upper_char_def)
  with assms have "filter (\<lambda>row. material_id row = Str ''MAT_GEN'') ref_df = filter is_gen_row ref_df"
    by (intro filter_cong) auto
  then show ?thesis unfolding detect_material_def by (simp only:)
qed

text \<open>
  Claim C4. A contract that passes the spend gate (its parsed spend is at least
  \<open>MIN_SPEND_GBP\<close>) and whose detected material has a strictly positive price and carbon
  factor gets \<open>tonnes = spend / price\<close>, \<open>co2e = tonnes * factor / 1000\<close>, the bounds
  \<open>co2e * 0.75\<close> and \<open>co2e * 1.25\<close>, each operation being the operation on doubles, and the
  tier \<open>CRITICAL\<close> from 1000, \<open>HIGH\<close> from 250, \<open>MEDIUM\<close> from 50 and \<open>LOW\<close> below, taken
  on the \<open>co2e\<close> so computed; the row is \<open>CALCULATED\<close> and carries these values under
  \<open>round(., 2)\<close>. Spend 100000 with price 50 and factor 100 gives 2000 tonnes, 200
  tonnes of CO2e, the bounds 150 and 250 and the tier \<open>MEDIUM\<close>. (Spend 200000 with price
  11 and factor 55, where the exact quotient is 1000, gives the double just below 1000
  and the tier \<open>HIGH\<close>.)
\<close>

theorem carbon_computation:
  assumes "MIN_SPEND_GBP \<le> clean_currency (value_amount row)"
    and "detect_material (full_text row) materials = Some mat"
    and "composite_price_gbp_per_tonne mat = Fin price"
    and "carbon_factor_kgco2e_per_tonne mat = Fin factor"
    and "0 < price" and "0 < factor"
  shows
   "(let spend = clean_currency (value_amount row);
         tonnes = to_double (spend / price);
         co2e = to_double (to_double (tonnes * factor) / 1000);
         low = to_double (co2e * 0.75);
         high = to_double (co2e * 1.25);
         tier = (if 1000 \<le> co2e then CRITICAL else if 250 \<le> co2e then HIGH
                 else if 50 \<le> co2e then MEDIUM else LOW)
     in compute_estimate spend (Fin price) (Fin factor) =
          \<lparr>est_tonnes = Fin tonnes, est_co2e = Fin co2e,
           low_bound = Fin low, high_bound = Fin high, risk_tier = tier\<rparr>
        \<and> process_contract materials row =
          \<lparr>input_row = row, status = CALCULATED, ref_price_factor = None,
           calc = Some
             \<lparr>detected_material_id = material_id mat,
              detected_material_name = material_name mat,
              applied_price_rate = Fin price,
              applied_carbon_factor = Fin factor,
              est_material_tonnes = round2 (Fin tonnes),
              est_co2e_tonnes = round2 (Fin co2e),
              co2e_range_low = round2 (Fin low),
              co2e_range_high = round2 (Fin high),
              risk_category = tier,
              data_source_ref = ice_source_ref mat\<rparr>\<rparr>)
    \<and> compute_estimate 100000 (Fin 50) (Fin 100) =
          \<lparr>est_tonnes = Fin 2000, est_co2e = Fin 200,
           low_bound = Fin 150, high_bound = Fin 250, risk_tier = MEDIUM\<rparr>
    \<and> round2 (Fin 2000) = Fin 2000 \<and> round2 (Fin 200) = Fin 200
    \<and> round2 (Fin 150) = Fin 150 \<and> round2 (Fin 250) = Fin 250
    \<and> est_co2e (compute_estimate 200000 (Fin 11) (Fin 55)) = Fin (1000 - 1 / 2 ^ 43)
    \<and> risk_tier (compute_estimate 200000 (Fin 11) (Fin 55)) = HIGH"
proof -
  have ex: "compute_estimate 100000 (Fin 50) (Fin 100) =
          \<lparr>est_tonnes = Fin 2000, est_co2e = Fin 200,
           low_bound = Fin 150, high_bound = Fin 250, risk_tier = MEDIUM\<rparr>"
    by (simp add: compute_estimate_def fl_div_def fl_mul_def fl_ge_def Let_def
        to_double_examples)
  have rd: "round2 (Fin 2000) = Fin 2000" "round2 (Fin 200) = Fin 200"
    "round2 (Fin 150) = Fin 150" "round2 (Fin 250) = Fin 250"
    by (simp_all add: round2_def round_half_even_numeral to_double_examples)
  have th: "est_co2e (compute_estimate 200000 (Fin 11) (Fin 55)) = Fin (1000 - 1 / 2 ^ 43)"
    "risk_tier (compute_estimate 200000 (Fin 11) (Fin 55)) = HIGH"
    by (simp_all add: compute_estimate_def fl_div_def fl_mul_def fl_ge_def Let_def
        to_double_threshold)
  let ?spend = "clean_currency (value_amount row)"
  let ?tonnes = "to_double (?spend / price)"
  let ?co2e = "to_double (to_double (?tonnes * factor) / 1000)"
  have ce: "compute_estimate ?spend (Fin price) (Fin factor) =
      \<lparr>est_tonnes = Fin ?tonnes, est_co2e = Fin ?co2e,
       low_bound = Fin (to_double (?co2e * 0.75)),
       high_bound = Fin (to_double (?co2e * 1.25)),
       risk_tier = (if 1000 \<le> ?co2e then CRITICAL
                    else if 250 \<le> ?co2e then HIGH
                    else if 50 \<le> ?co2e then MEDIUM else LOW)\<rparr>"
    by (simp add: compute_estimate_def fl_div_def fl_mul_def fl_ge_def Let_def)
  have guard: "\<not> ?spend < MIN_SPEND_GBP" "\<not> fl_le (Fin price) 0" "\<not> fl_le (Fin factor) 0"
    using assms by (simp_all add: fl_le_def)
  have pc: "process_contract materials row =
      \<lparr>input_row = row, status = CALCULATED, ref_price_factor = None,
       calc = Some
         \<lparr>detected_material_id = material_id mat,
          detected_material_name = material_name mat,
          applied_price_rate = Fin price,
          applied_carbon_factor = Fin factor,
          est_material_tonnes = round2 (est_tonnes (compute_estimate ?spend (Fin price) (Fin factor))),
          est_co2e_tonnes = round2 (est_co2e (compute_estimate ?spend (Fin price) (Fin factor))),
          co2e_range_low = round2 (low_bound (compute_estimate ?spend (Fin price) (Fin factor))),
          co2e_range_high = round2 (high_bound (compute_estimate ?spend (Fin price) (Fin factor))),
          risk_category = risk_tier (compute_estimate ?spend (Fin price) (Fin factor)),
          data_source_ref = ice_source_ref mat\<rparr>\<rparr>"
    using guard assms(2,3,4) by (simp add: process_contract_def Let_def)
  have main: "compute_estimate ?spend (Fin price) (Fin factor) =
          \<lparr>est_tonnes = Fin ?tonnes, est_co2e = Fin ?co2e,
           low_bound = Fin (to_double (?co2e * 0.75)),
           high_bound = Fin (to_double (?co2e * 1.25)),
           risk_tier = (if 1000 \<le> ?co2e then CRITICAL else if 250 \<le> ?co2e then HIGH
                 else if 50 \<le> ?co2e then MEDIUM else LOW)\<rparr>
        \<and> process_contract materials row =
          \<lparr>input_row = row, status = CALCULATED, ref_price_factor = None,
           calc = Some
             \<lparr>detected_material_id = material_id mat,
              detected_material_name = material_name mat,
              applied_price_rate = Fin price,
              applied_carbon_factor = Fin factor,
              est_material_tonnes = round2 (Fin ?tonnes),
              est_co2e_tonnes = round2 (Fin ?co2e),
              co2e_range_low = round2 (Fin (to_double (?co2e * 0.75))),
              co2e_range_high = round2 (Fin (to_double (?co2e * 1.25))),
              risk_category = (if 1000 \<le> ?co2e then CRITICAL else if 250 \<le> ?co2e then HIGH
                 else if 50 \<le> ?co2e then MEDIUM else LOW),
              data_source_ref = ice_source_ref mat\<rparr>\<rparr>"
    unfolding pc ce by simp
  from main ex rd th show ?thesis
    unfolding Let_def by (intro conjI) (simp_all only:)
qed

theorem carbon_computation_witness:
  "MIN_SPEND_GBP \<le> clean_currency (value_amount (example_row ''Bridge'' ''steel deck'' ''100000''))
   \<and> detect_material (full_text (example_row ''Bridge'' ''steel deck'' ''100000''))
         [example_material ''MAT_STEEL'' ''steel|rebar'' 50 100,
          example_material ''MAT_GEN'' [] 40 50]
       = Some (example_material ''MAT_STEEL'' ''steel|rebar'' 50 100)
   \<and> (0::rat) < 50 \<and> (0::rat) < 100
   \<and> calc (process_contract
          [example_material ''MAT_STEEL'' ''steel|rebar'' 50 100,
           example_material ''MAT_GEN'' [] 40 50]
          (example_row ''Bridge'' ''steel deck'' ''100000'')) =
       Some \<lparr>detected_material_id = Str ''MAT_STEEL'',
             detected_material_name = Str ''MAT_STEEL'',
             applied_price_rate = Fin 50,
             applied_carbon_factor = Fin 100,
             est_material_tonnes = Fin 2000,
             est_co2e_tonnes = Fin 200,
             co2e_range_low = Fin 150,
             co2e_range_high = Fin 250,
             risk_category = MEDIUM,
             data_source_ref = NaN\<rparr>"
proof -
  let ?row = "example_row ''Bridge'' ''steel deck'' ''100000''"
  let ?mat = "example_material ''MAT_STEEL'' ''steel|rebar'' 50 100"
  let ?ms = "[?mat, example_material ''MAT_GEN'' [] 40 50]"
  have s: "clean_currency (value_amount ?row) = 100000"
    by (simp add: example_row_def clean_currency_def strip_non_numeric_def cell_str_def
        is_digit_def float_of_digits_def nat_of_digits_def digit_val_def to_double_examples)
  have d: "detect_material (full_text ?row) ?ms = Some ?mat"
    by (simp add: example_row_def example_material_def detect_material_def full_text_def
        or_empty_def cell_str_def lower_def lower_char_def upper_def upper_char_def
        is_gen_row_def row_matches_def row_keywords_def strip_def is_space_def)
  have p: "composite_price_gbp_per_tonne ?mat = Fin 50"
    "carbon_factor_kgco2e_per_tonne ?mat = Fin 100"
    "material_id ?mat = Str ''MAT_STEEL''" "material_name ?mat = Str ''MAT_STEEL''"
    "ice_source_ref ?mat = NaN"
    by (simp_all add: example_material_def)
  have m: "MIN_SPEND_GBP \<le> clean_currency (value_amount ?row)"
    by (simp add: s MIN_SPEND_GBP_def)
  have r: "round2 (Fin 2000) = Fin 2000" "round2 (Fin 200) = Fin 200"
    "round2 (Fin 150) = Fin 150" "round2 (Fin 250) = Fin 250"
    by (simp_all add: round2_def round_half_even_numeral to_double_examples)
  from carbon_computation [OF m d p(1) p(2)] m d r
  show ?thesis by (simp add: Let_def s p to_double_examples)
qed

text \<open>
  Claim C5: on a table with exactly one generic row, \<open>detect_material\<close> returns the first
  row, other than the generic one, that has a keyword occurring in the lower-cased text,
  else the generic row, and \<open>None\<close> when there is no generic row. The code departs from
  it. The scan takes a row for the generic one when its \<open>material_id\<close>, upper-cased, is
  \<open>MAT_GEN\<close>; the fallback looks for a \<open>material_id\<close> that is exactly \<open>MAT_GEN\<close>. A table
  whose only row has the id \<open>mat_gen\<close> therefore has its row skipped by the scan as the
  generic one and not found by the fallback: the result is \<open>None\<close>. And with a row
  \<open>mat_gen\<close> before the row \<open>MAT_GEN\<close>, the first row is never returned although its
  keyword occurs in the text. (Lemma \<open>detect_material_exact_ids\<close> above: when every row the
  scan skips has the exact id, the two tests agree and \<open>detect_material\<close> is the first
  matching row in table order, else the first generic row, else \<open>None\<close>.)
\<close>

theorem detect_material_sentinel_mismatch:
  "is_gen_row (example_material ''mat_gen'' ''steel'' 40 50)
   \<and> detect_material ''Timber frame'' [example_material ''mat_gen'' ''steel'' 40 50] = None
   \<and> material_id (example_material ''mat_gen'' ''steel'' 40 50) \<noteq> Str ''MAT_GEN''
   \<and> row_matches (lower ''Steel bridge'') (example_material ''mat_gen'' ''steel'' 40 50)
   \<and> detect_material ''Steel bridge''
        [example_material ''mat_gen'' ''steel'' 40 50, example_material ''MAT_GEN'' [] 40 50]
       = Some (example_material ''MAT_GEN'' [] 40 50)"
  by (simp add: example_material_def detect_material_def
        cell_str_def lower_def lower_char_def upper_def upper_char_def
        is_gen_row_def row_matches_def row_keywords_def strip_def is_space_def)

text \<open>
  Claim C6. \<open>clean_currency\<close> keeps the digits and decimal points of \<open>str(val)\<close> and
  parses the result; when that fails, and for a missing amount, the spend is 0 and nothing
  is raised. A contract whose spend is below \<open>MIN_SPEND_GBP = 5000\<close> is emitted, once per
  input row, with the status \<open>SKIPPED_LOW_VALUE\<close> and no other column added. The amount
  text of a pound sign followed by \<open>4,999.50\<close> parses to 4999.50 and is skipped as low
  value. (The pound sign is the two bytes C2 A3 of its UTF-8 form.)
\<close>

theorem spend_gate:
  "clean_currency val =
     (case float_of_digits (strip_non_numeric (cell_str val)) of Some x \<Rightarrow> x | None \<Rightarrow> 0)
   \<and> clean_currency NaN = 0
   \<and> MIN_SPEND_GBP = 5000
   \<and> (clean_currency (value_amount row) < MIN_SPEND_GBP \<longrightarrow>
        process_contract materials row =
          \<lparr>input_row = row, status = SKIPPED_LOW_VALUE, ref_price_factor = None, calc = None\<rparr>)
   \<and> (row \<in> set contracts \<and> clean_currency (value_amount row) < MIN_SPEND_GBP \<longrightarrow>
        (\<exists>r \<in> set (run_pqe_engine contracts materials).
           input_row r = row \<and> status r = SKIPPED_LOW_VALUE))
   \<and> (\<forall>r \<in> set (run_pqe_engine contracts materials).
        clean_currency (value_amount (input_row r)) < MIN_SPEND_GBP \<longrightarrow>
        status r = SKIPPED_LOW_VALUE)
   \<and> clean_currency (Str ([CHR 0xC2, CHR 0xA3] @ ''4,999.50'')) = 4999.50
   \<and> (value_amount row = Str ([CHR 0xC2, CHR 0xA3] @ ''4,999.50'') \<longrightarrow>
        status (process_contract materials row) = SKIPPED_LOW_VALUE)"
proof -
  have a: "clean_currency val =
     (case float_of_digits (strip_non_numeric (cell_str val)) of Some x \<Rightarrow> x | None \<Rightarrow> 0)"
    by (simp add: clean_currency_def Let_def float_of_digits_def)
  have b: "clean_currency NaN = 0"
    by (simp add: clean_currency_def strip_non_numeric_def cell_str_def is_digit_def)
  have c: "clean_currency (Str ([CHR 0xC2, CHR 0xA3] @ ''4,999.50'')) = 4999.50"
    by (simp add: clean_currency_def strip_non_numeric_def cell_str_def is_digit_def
        float_of_digits_def nat_of_digits_def digit_val_def to_double_examples)
  have d: "process_contract materials row =
          \<lparr>input_row = row, status = SKIPPED_LOW_VALUE, ref_price_factor = None, calc = None\<rparr>"
    if "clean_currency (value_amount row) < MIN_SPEND_GBP" for row
    using that by (rule process_contract_low)
  have e: "\<exists>r \<in> set (run_pqe_engine contracts materials).
           input_row r = row \<and> status r = SKIPPED_LOW_VALUE"
    if "row \<in> set contracts" "clean_currency (value_amount row) < MIN_SPEND_GBP"
  proof -
    from that(1) have "process_contract materials row \<in> set (run_pqe_engine contracts materials)"
      by (simp add: set_run_pqe_engine)
    moreover from d [OF that(2)] have "input_row (process_contract materials row) = row"
      "status (process_contract materials row) = SKIPPED_LOW_VALUE" by simp_all
    ultimately show ?thesis by blast
  qed
  have f: "\<forall>r \<in> set (run_pqe_engine contracts materials).
        clean_currency (value_amount (input_row r)) < MIN_SPEND_GBP \<longrightarrow>
        status r = SKIPPED_LOW_VALUE"
  proof (intro ballI impI)
    fix r assume "r \<in> set (run_pqe_engine contracts materials)"
      and lt: "clean_currency (value_amount (input_row r)) < MIN_SPEND_GBP"
    then obtain row0 where r: "r = process_contract materials row0"
      by (auto simp: set_run_pqe_engine)
    with lt have "clean_currency (value_amount row0) < MIN_SPEND_GBP"
      by (simp add: process_contract_input_row)
    from d [OF this] r show "status r = SKIPPED_LOW_VALUE" by simp
  qed
  have g: "status (process_contract materials row) = SKIPPED_LOW_VALUE"
    if "value_amount row = Str ([CHR 0xC2, CHR 0xA3] @ ''4,999.50'')"
  proof -
    from that c have "clean_currency (value_amount row) < MIN_SPEND_GBP"
      by (simp add: MIN_SPEND_GBP_def)
    from d [OF this] show ?thesis by simp
  qed
  from a b c d e f g show ?thesis by (simp add: MIN_SPEND_GBP_def)
qed

theorem spend_gate_witness:
  "example_row ''Road'' ''works'' ([CHR 0xC2, CHR 0xA3] @ ''4,999.50'')
     \<in> set [example_row ''Road'' ''works'' ([CHR 0xC2, CHR 0xA3] @ ''4,999.50'')]
   \<and> clean_currency (value_amount
         (example_row ''Road'' ''works'' ([CHR 0xC2, CHR 0xA3] @ ''4,999.50''))) < MIN_SPEND_GBP
   \<and> (\<exists>r \<in> set (run_pqe_engine
                   [example_row ''Road'' ''works'' ([CHR 0xC2, CHR 0xA3] @ ''4,999.50'')]
                   [example_material ''MAT_GEN'' [] 40 50]).
         input_row r = example_row ''Road'' ''works'' ([CHR 0xC2, CHR 0xA3] @ ''4,999.50'')
         \<and> status r = SKIPPED_LOW_VALUE)"
proof -
  let ?row = "example_row ''Road'' ''works'' ([CHR 0xC2, CHR 0xA3] @ ''4,999.50'')"
  have v: "value_amount ?row = Str ([CHR 0xC2, CHR 0xA3] @ ''4,999.50'')"
    by (simp add: example_row_def)
  have lt: "clean_currency (value_amount ?row) < MIN_SPEND_GBP"
    unfolding v
    by (simp add: clean_currency_def strip_non_numeric_def cell_str_def is_digit_def
        float_of_digits_def nat_of_digits_def digit_val_def to_double_examples MIN_SPEND_GBP_def)
  have m: "?row \<in> set [?row]" by simp
  from spend_gate [of _ ?row "[example_material ''MAT_GEN'' [] 40 50]" "[?row]"] m lt
  show ?thesis by blast
qed

text \<open>
  Claim C7. In the output of \<open>run_pqe_engine\<close>, for any two positions \<open>i < j\<close>: the sort
  key of row \<open>i\<close> is at least that of row \<open>j\<close>; when both rows have a CO2e value, that of
  row \<open>i\<close> is at least that of row \<open>j\<close>; a row without a value is never followed by a row
  with one; and a row whose status is not \<open>CALCULATED\<close> has no value. (A \<open>CALCULATED\<close>
  row whose reference price or factor is \<open>NaN\<close> has the value \<open>NaN\<close>; \<open>fillna\<close> counts it
  with the rows that have none.)
\<close>

theorem output_order:
  assumes "i < j" "j < length (run_pqe_engine contracts materials)"
  shows "sort_helper (run_pqe_engine contracts materials ! j)
           \<le> sort_helper (run_pqe_engine contracts materials ! i)
       \<and> (\<forall>x y. computed_co2e (run_pqe_engine contracts materials ! i) = Some x \<and>
                 computed_co2e (run_pqe_engine contracts materials ! j) = Some y \<longrightarrow> y \<le> x)
       \<and> (computed_co2e (run_pqe_engine contracts materials ! i) = None \<longrightarrow>
            computed_co2e (run_pqe_engine contracts materials ! j) = None)
       \<and> (status (run_pqe_engine contracts materials ! j) \<noteq> CALCULATED \<longrightarrow>
            computed_co2e (run_pqe_engine contracts materials ! j) = None)"
proof -
  let ?out = "run_pqe_engine contracts materials"
  from assms have i: "i < length ?out" by simp
  have "sorted (map (\<lambda>r. - sort_helper r) ?out)" by (rule sorted_run_pqe_engine)
  with assms i have "(map (\<lambda>r. - sort_helper r) ?out) ! i \<le> (map (\<lambda>r. - sort_helper r) ?out) ! j"
    by (intro sorted_nth_mono) auto
  with assms i have le: "sort_helper (?out ! j) \<le> sort_helper (?out ! i)" by simp
  have mem: "?out ! j \<in> process_contract materials ` set contracts"
    using assms(2) set_run_pqe_engine nth_mem by blast
  then obtain row where row: "?out ! j = process_contract materials row" by auto
  have nonneg: "0 \<le> y" if "computed_co2e (?out ! j) = Some y" for y
    using that calc_nonneg [of materials row] unfolding row
    by (auto simp: computed_co2e_def split: option.splits pyfloat.splits)
  have a: "\<forall>x y. computed_co2e (?out ! i) = Some x \<and> computed_co2e (?out ! j) = Some y \<longrightarrow> y \<le> x"
    using le by (auto simp: sort_helper_computed)
  have b: "computed_co2e (?out ! i) = None \<longrightarrow> computed_co2e (?out ! j) = None"
  proof
    assume n: "computed_co2e (?out ! i) = None"
    show "computed_co2e (?out ! j) = None"
    proof (cases "computed_co2e (?out ! j)")
      case None then show ?thesis .
    next
      case (Some y)
      with n le have "y \<le> - 1" by (simp add: sort_helper_computed)
      with nonneg [OF Some] show ?thesis by simp
    qed
  qed
  have c: "status (?out ! j) \<noteq> CALCULATED \<longrightarrow> computed_co2e (?out ! j) = None"
    unfolding row
    by (auto simp: process_contract_def computed_co2e_def Let_def split: option.splits)
  from le a b c show ?thesis by blast
qed

theorem output_order_witness:
  "(0::nat) < 1
   \<and> 1 < length (run_pqe_engine
          [example_row ''Road'' ''works'' ''4999.50'',
           example_row ''Bridge'' ''steel deck'' ''100000'']
          [example_material ''MAT_STEEL'' ''steel|rebar'' 50 100])
   \<and> computed_co2e (run_pqe_engine
          [example_row ''Road'' ''works'' ''4999.50'',
           example_row ''Bridge'' ''steel deck'' ''100000'']
          [example_material ''MAT_STEEL'' ''steel|rebar'' 50 100] ! 0) = Some 200
   \<and> computed_co2e (run_pqe_engine
          [example_row ''Road'' ''works'' ''4999.50'',
           example_row ''Bridge'' ''steel deck'' ''100000'']
          [example_material ''MAT_STEEL'' ''steel|rebar'' 50 100] ! 1) = None
   \<and> status (run_pqe_engine
          [example_row ''Road'' ''works'' ''4999.50'',
           example_row ''Bridge'' ''steel deck'' ''100000'']
          [example_material ''MAT_STEEL'' ''steel|rebar'' 50 100] ! 1) = SKIPPED_LOW_VALUE"
proof -
  let ?r1 = "example_row ''Road'' ''works'' ''4999.50''"
  let ?r2 = "example_row ''Bridge'' ''steel deck'' ''100000''"
  let ?ms = "[example_material ''MAT_STEEL'' ''steel|rebar'' 50 100]"
  let ?out = "run_pqe_engine [?r1, ?r2] ?ms"
  have len: "1 < length ?out"
    by (simp add: run_pqe_engine_def Let_def)
  have s1: "clean_currency (value_amount ?r1) < MIN_SPEND_GBP"
    by (simp add: example_row_def clean_currency_def strip_non_numeric_def cell_str_def
        is_digit_def float_of_digits_def nat_of_digits_def digit_val_def to_double_examples MIN_SPEND_GBP_def)
  have p1: "process_contract ?ms ?r1 =
     \<lparr>input_row = ?r1, status = SKIPPED_LOW_VALUE, ref_price_factor = None, calc = None\<rparr>"
    using s1 by (rule process_contract_low)
  have s2: "clean_currency (value_amount ?r2) = 100000"
    by (simp add: example_row_def clean_currency_def strip_non_numeric_def cell_str_def
        is_digit_def float_of_digits_def nat_of_digits_def digit_val_def to_double_examples)
  have d2: "detect_material (full_text ?r2) ?ms = Some (example_material ''MAT_STEEL'' ''steel|rebar'' 50 100)"
    by (simp add: example_row_def example_material_def detect_material_def full_text_def
        or_empty_def cell_str_def lower_def lower_char_def upper_def upper_char_def
        is_gen_row_def row_matches_def row_keywords_def strip_def is_space_def)
  have p: "composite_price_gbp_per_tonne (example_material ''MAT_STEEL'' ''steel|rebar'' 50 100) = Fin 50"
    "carbon_factor_kgco2e_per_tonne (example_material ''MAT_STEEL'' ''steel|rebar'' 50 100) = Fin 100"
    by (simp_all add: example_material_def)
  have c2: "computed_co2e (process_contract ?ms ?r2) = Some 200"
    "calc (process_contract ?ms ?r2) \<noteq> None"
    by (simp_all add: process_contract_def s2 d2 p Let_def MIN_SPEND_GBP_def computed_co2e_def
        fl_le_def compute_estimate_def fl_div_def fl_mul_def fl_ge_def
        round2_def round_half_even_numeral to_double_examples)
  have sh: "sort_helper (process_contract ?ms ?r1) = - 1"
    "sort_helper (process_contract ?ms ?r2) = 200"
    using c2(1) by (simp_all add: p1 sort_helper_def computed_co2e_def
        split: option.splits pyfloat.splits)
  have out: "?out = [process_contract ?ms ?r2, process_contract ?ms ?r1]"
    using c2(2) by (simp add: run_pqe_engine_def Let_def sort_key_def sh)
  have "computed_co2e (?out ! 0) = Some 200" "status (?out ! 1) = SKIPPED_LOW_VALUE"
    by (simp_all add: out c2 p1)
  with output_order [of 0 1 "[?r1, ?r2]" ?ms] len
  show ?thesis by simp
qed

subsection \<open>Canonical buyer names\<close>

lemma unique_go_set: "set (unique_go seen xs) = set xs - set seen"
  by (induction seen xs rule: unique_go.induct) auto

lemma unique_go_distinct: "distinct (unique_go seen xs)"
  by (induction seen xs rule: unique_go.induct) (auto simp: unique_go_set)

lemma unique_distinct: "distinct (unique xs)"
  by (simp add: unique_def unique_go_distinct)

lemma unique_set: "set (unique xs) = set xs"
  by (simp add: unique_def unique_go_set)

lemma cluster_append_names:
  "set (concat (map snd (cluster_append key name cl))) = insert name (set (concat (map snd cl)))"
  by (induction key name cl rule: cluster_append.induct) auto

lemma cluster_append_keys:
  "set (map fst (cluster_append key name cl)) = insert key (set (map fst cl))"
  by (induction key name cl rule: cluster_append.induct) auto

lemma cluster_append_mem:
  "(k, vs) \<in> set (cluster_append key name cl) \<Longrightarrow>
     (k, vs) \<in> set cl \<or>
     (k = key \<and> (vs = [name] \<or> (\<exists>ws. (key, ws) \<in> set cl \<and> vs = ws @ [name])))"
  by (induction key name cl rule: cluster_append.induct) (auto split: if_splits)

lemma cluster_append_distinct_keys:
  "distinct (map fst cl) \<Longrightarrow> distinct (map fst (cluster_append key name cl))"
proof (induction key name cl rule: cluster_append.induct)
  case (1 key name)
  then show ?case by simp
next
  case (2 key name k vs cl)
  then show ?case
    using cluster_append_keys [of key name cl] by (auto simp del: set_map)
qed

lemma cluster_append_distinct_names:
  "distinct (concat (map snd cl)) \<Longrightarrow> name \<notin> set (concat (map snd cl)) \<Longrightarrow>
   distinct (concat (map snd (cluster_append key name cl)))"
proof (induction key name cl rule: cluster_append.induct)
  case (1 key name)
  then show ?case by simp
next
  case (2 key name k vs cl)
  show ?case
  proof (cases "k = key")
    case True
    with 2 show ?thesis by auto
  next
    case False
    from 2 False have d: "distinct (concat (map snd (cluster_append key name cl)))" by auto
    from 2 have "set vs \<inter> set (concat (map snd cl)) = {}" "name \<notin> set vs" "distinct vs" by auto
    then have "set vs \<inter> set (concat (map snd (cluster_append key name cl))) = {}"
      unfolding cluster_append_names by auto
    with d False \<open>distinct vs\<close> show ?thesis by simp
  qed
qed

lemma cluster_append_inv:
  assumes "cluster_inv cl" "name \<notin> set (concat (map snd cl))"
  shows "cluster_inv (cluster_append (cluster_key name) name cl)"
proof -
  have "vs \<noteq> [] \<and> (\<forall>v \<in> set vs. cluster_key v = k)"
    if "(k, vs) \<in> set (cluster_append (cluster_key name) name cl)" for k vs
  proof -
    from assms(1) have old: "ws \<noteq> [] \<and> (\<forall>v \<in> set ws. cluster_key v = k')"
      if "(k', ws) \<in> set cl" for k' ws
      using that by (auto simp: cluster_inv_def)
    from cluster_append_mem [OF that] show ?thesis
      using old by fastforce
  qed
  with assms show ?thesis
    unfolding cluster_inv_def
    by (auto intro: cluster_append_distinct_keys cluster_append_distinct_names)
qed

lemma foldl_cluster_inv:
  "cluster_inv cl \<Longrightarrow> distinct ns \<Longrightarrow> set ns \<inter> set (concat (map snd cl)) = {} \<Longrightarrow>
   cluster_inv (foldl (\<lambda>cl name. cluster_append (cluster_key name) name cl) cl ns)"
proof (induction ns arbitrary: cl)
  case Nil
  then show ?case by simp
next
  case (Cons n ns)
  let ?cl = "cluster_append (cluster_key n) n cl"
  from Cons.prems have "cluster_inv ?cl" by (intro cluster_append_inv) auto
  moreover from Cons.prems have "set ns \<inter> set (concat (map snd ?cl)) = {}"
    unfolding cluster_append_names by auto
  moreover from Cons.prems have "distinct ns" by simp
  ultimately show ?case using Cons.IH [of ?cl] by simp
qed

lemma build_clusters_inv: "cluster_inv (build_clusters names)"
  unfolding build_clusters_def
  by (rule foldl_cluster_inv) (simp_all add: cluster_inv_def unique_distinct)

lemma cluster_props:
  assumes "(key, variants) \<in> set (build_clusters names)"
  shows "variants \<noteq> []" "distinct variants" "\<forall>v \<in> set variants. cluster_key v = key"
proof -
  from build_clusters_inv [of names] assms
  show "variants \<noteq> []" "\<forall>v \<in> set variants. cluster_key v = key"
    by (auto simp: cluster_inv_def)
  from build_clusters_inv [of names] have "distinct (concat (map snd (build_clusters names)))"
    by (simp add: cluster_inv_def)
  then have "\<forall>ys \<in> set (map snd (build_clusters names)). distinct ys"
    by (simp add: distinct_concat_iff)
  with assms show "distinct variants" by force
qed

lemma Counter_distinct_aux:
  "distinct (map fst c @ xs) \<Longrightarrow>
   foldl (\<lambda>c x. counter_add x c) c xs = c @ map (\<lambda>x. (x, 1)) xs"
proof (induction xs arbitrary: c)
  case Nil
  then show ?case by simp
next
  case (Cons x xs)
  have a: "counter_add x c = c @ [(x, 1)]" if "x \<notin> set (map fst c)" for c :: "('a \<times> nat) list"
    using that by (induction c) auto
  from Cons.prems have "x \<notin> set (map fst c)" by auto
  then have "counter_add x c = c @ [(x, 1)]" by (rule a)
  moreover from Cons.prems have "distinct (map fst (c @ [(x, 1)]) @ xs)" by auto
  ultimately show ?case using Cons.IH [of "c @ [(x, 1)]"] by simp
qed

lemma Counter_distinct: "distinct xs \<Longrightarrow> Counter xs = map (\<lambda>x. (x, 1)) xs"
  using Counter_distinct_aux [of "[]" xs] by (simp add: Counter_def)

lemma first_max_ones: "\<forall>p \<in> set ps. snd p \<le> snd best \<Longrightarrow> first_max best ps = best"
  by (induction ps arbitrary: best) auto

lemma canonical_of_no_acronym:
  assumes "variants \<noteq> []" "distinct variants" "\<forall>v \<in> set variants. squeeze_upper v \<noteq> key"
  shows "canonical_of key variants = Some (hd variants)"
proof -
  from assms(1) obtain v vs where vs: "variants = v # vs" by (cases variants) auto
  from assms(3) have f: "filter (\<lambda>v. squeeze_upper v = key) variants = []"
    by (simp add: filter_empty_conv)
  have "most_common_1 (Counter variants) = [(v, 1)]"
    using assms(2) by (simp add: Counter_distinct vs most_common_1_def first_max_ones)
  with f show ?thesis by (simp add: canonical_of_def vs)
qed

lemma canonical_of_acronym:
  assumes "\<exists>v \<in> set variants. squeeze_upper v = key"
  shows "\<exists>c pre post. canonical_of key variants = Some c \<and> variants = pre @ c # post \<and>
           squeeze_upper c = key \<and> (\<forall>v \<in> set pre. squeeze_upper v \<noteq> key)"
proof -
  from assms obtain pre c post where
    s: "variants = pre @ c # post" "squeeze_upper c = key" "\<forall>v \<in> set pre. squeeze_upper v \<noteq> key"
    using split_list_first_prop [of variants "\<lambda>v. squeeze_upper v = key"] by auto
  then have "filter (\<lambda>v. squeeze_upper v = key) variants =
             c # filter (\<lambda>v. squeeze_upper v = key) post"
    by (simp add: filter_empty_conv)
  then have "canonical_of key variants = Some c" by (simp add: canonical_of_def)
  with s show ?thesis by blast
qed

lemma canonical_of_total: "variants \<noteq> [] \<Longrightarrow> distinct variants \<Longrightarrow> canonical_of key variants \<noteq> None"
  using canonical_of_no_acronym [of variants key] canonical_of_acronym [of variants key]
  by (cases "\<exists>v \<in> set variants. squeeze_upper v = key") auto

lemma canonical_rows_set:
  "\<forall>(k, vs) \<in> set cl. canonical_of k vs \<noteq> None \<Longrightarrow>
   \<exists>rows. canonical_rows cl = Some rows \<and>
     set rows = {(v, c). \<exists>k vs. (k, vs) \<in> set cl \<and> v \<in> set vs \<and> canonical_of k vs = Some c}"
proof (induction cl)
  case Nil
  then show ?case by simp
next
  case (Cons a cl)
  obtain k vs where a: "a = (k, vs)" by (cases a)
  from Cons.prems a obtain c where c: "canonical_of k vs = Some c" by auto
  from Cons obtain rows where r: "canonical_rows cl = Some rows"
    "set rows = {(v, c). \<exists>k vs. (k, vs) \<in> set cl \<and> v \<in> set vs \<and> canonical_of k vs = Some c}"
    by auto
  have "canonical_rows (a # cl) = Some (map (\<lambda>v. (v, c)) vs @ rows)"
    by (simp add: a c r)
  moreover have "set (map (\<lambda>v. (v, c)) vs @ rows) =
     {(v, c). \<exists>k vs. (k, vs) \<in> set (a # cl) \<and> v \<in> set vs \<and> canonical_of k vs = Some c}"
    using c by (auto simp: r(2) a)
  ultimately show ?case by blast
qed

lemma build_canonical_map_rows:
  "\<exists>rows. build_canonical_map names = Some rows \<and>
     set rows = {(v, c). \<exists>k vs. (k, vs) \<in> set (build_clusters names) \<and> v \<in> set vs \<and>
                        canonical_of k vs = Some c}"
proof -
  have "canonical_of k vs \<noteq> None" if "(k, vs) \<in> set (build_clusters names)" for k vs
  proof -
    from that have "vs \<noteq> []" "distinct vs" by (rule cluster_props)+
    then show ?thesis by (rule canonical_of_total)
  qed
  then have "\<forall>(k, vs) \<in> set (build_clusters names). canonical_of k vs \<noteq> None"
    by blast
  then show ?thesis
    unfolding build_canonical_map_def by (rule canonical_rows_set)
qed

lemma cluster_unique:
  assumes "(k, vs) \<in> set (build_clusters names)" "(k', vs') \<in> set (build_clusters names)"
    "v \<in> set vs" "v \<in> set vs'"
  shows "k' = k \<and> vs' = vs"
proof -
  from assms cluster_props(3) have k: "k' = k" by metis
  from build_clusters_inv [of names] have "distinct (map fst (build_clusters names))"
    by (simp add: cluster_inv_def)
  with assms(1,2) k show ?thesis by (auto dest: eq_key_imp_eq_value)
qed

lemma split_go_nonempty: "w \<in> set (split_go cur s) \<Longrightarrow> w \<noteq> []"
  by (induction cur s rule: split_go.induct) (auto split: if_splits)

lemma acronym_initials: "acronym text = upper (map hd (split_ws text))"
proof -
  have ne: "\<forall>w \<in> set (split_ws text). w \<noteq> []"
    by (auto simp: split_ws_def dest: split_go_nonempty)
  have "concat (map (take 1) ws) = map hd ws" if "\<forall>w \<in> set ws. w \<noteq> []" for ws :: "string list"
    using that by (induction ws) (auto simp: take_Suc)
  with ne have "concat (map (take 1) (split_ws text)) = map hd (split_ws text)" by blast
  moreover from ne have "filter (\<lambda>word. word \<noteq> []) (split_ws text) = split_ws text"
    by (simp add: filter_id_conv)
  ultimately show ?thesis by (simp add: acronym_def)
qed

lemma canonical_is_first_variant:
  assumes "(key, variants) \<in> set (build_clusters names)"
    and "\<forall>v \<in> set variants. squeeze_upper v \<noteq> key"
  shows "distinct variants \<and> variants \<noteq> [] \<and> canonical_of key variants = Some (hd variants)"
  using assms cluster_props [OF assms(1)] canonical_of_no_acronym by blast

lemma dft_clusters:
  "build_clusters [Some ''Department for Transport'', Some ''Department for Transport'',
                   Some ''DfT'', Some ''DFT''] =
     [(''DFT'', [''Department for Transport'', ''DfT'', ''DFT''])]"
  by code_simp

lemma drop_duplicates_go_subset: "set (drop_duplicates_go seen key rs) \<subseteq> set rs"
  by (induction seen key rs rule: drop_duplicates_go.induct) auto

lemma run_rows:
  assumes "run df = Inr out" "r \<in> set out"
  shows "0 < value_amount r \<and> (\<exists>row \<in> set df. \<exists>canonical. r = cleaned_row row canonical)"
proof -
  from assms(1) obtain buyer_map where
    out: "out = filter (\<lambda>r. 0 < value_amount r)
            (drop_duplicates ocid
              (map (\<lambda>(row, canonical). cleaned_row row canonical)
                 (concat (map (merge_row buyer_map) df))))"
    by (auto simp: run_def Let_def split: option.splits if_splits)
  from assms(2) have pos: "0 < value_amount r" by (simp add: out)
  from assms(2) have "r \<in> set (map (\<lambda>(row, canonical). cleaned_row row canonical)
                 (concat (map (merge_row buyer_map) df)))"
    using drop_duplicates_go_subset unfolding out drop_duplicates_def by fastforce
  then obtain row0 canonical row where
    "r = cleaned_row row0 canonical" "row \<in> set df" "(row0, canonical) \<in> set (merge_row buyer_map row)"
    by auto
  moreover then have "row0 = row"
    by (auto simp: merge_row_def Let_def split: if_splits)
  ultimately show ?thesis using pos by blast
qed

text \<open>
  Claim C1: in a cluster without an acronym form, the canonical name is the raw variant
  that occurs most often among the names of the cluster, the first encountered among
  equals. The code departs from it. \<open>build_canonical_map\<close> clusters
  \<open>names.dropna().unique()\<close>, so a cluster holds every raw variant once, whatever the
  number of its occurrences among the names, and \<open>Counter(variants).most_common(1)\<close>
  counts one for each: it returns the first variant of the cluster (lemma
  \<open>canonical_is_first_variant\<close> above). For the names \<open>ACME CO\<close>, \<open>Acme Co\<close>, \<open>Acme Co\<close>,
  whose cluster \<open>AC\<close> has no acronym form, the variant \<open>Acme Co\<close> occurs twice and \<open>ACME CO\<close>
  once, and the canonical name is \<open>ACME CO\<close>.
\<close>

theorem frequency_ignored:
  "build_clusters [Some ''ACME CO'', Some ''Acme Co'', Some ''Acme Co''] =
     [(''AC'', [''ACME CO'', ''Acme Co''])]
   \<and> squeeze_upper ''ACME CO'' \<noteq> ''AC'' \<and> squeeze_upper ''Acme Co'' \<noteq> ''AC''
   \<and> count_list [Some ''ACME CO'', Some ''Acme Co'', Some ''Acme Co''] (Some ''Acme Co'') = 2
   \<and> count_list [Some ''ACME CO'', Some ''Acme Co'', Some ''Acme Co''] (Some ''ACME CO'') = 1
   \<and> build_canonical_map [Some ''ACME CO'', Some ''Acme Co'', Some ''Acme Co''] =
       Some [(''ACME CO'', ''ACME CO''), (''Acme Co'', ''ACME CO'')]"
  by code_simp

text \<open>
  Claim C2. In every cluster in which some variant, with its spaces removed and
  upper-cased, equals the key, the canonical name is such a variant (the first one), for
  every variant of the cluster and whatever else the cluster holds: the map has the row
  from each variant to it and no other row for that variant. The key of the cluster is
  the key of each of its variants, and for a variant whose normalised name has more than
  one word it is the upper-cased initials of these words.
\<close>

theorem acronym_variant_is_canonical:
  assumes "(key, variants) \<in> set (build_clusters names)"
    and "\<exists>v \<in> set variants. squeeze_upper v = key"
  shows "\<exists>c rows.
      canonical_of key variants = Some c \<and> c \<in> set variants \<and> squeeze_upper c = key
    \<and> build_canonical_map names = Some rows
    \<and> (\<forall>v \<in> set variants. (v, c) \<in> set rows \<and> (\<forall>c'. (v, c') \<in> set rows \<longrightarrow> c' = c))
    \<and> (\<forall>v \<in> set variants. cluster_key v = key \<and>
          (1 < length (split_ws (basic_normalize (Some v))) \<longrightarrow>
             key = upper (map hd (split_ws (basic_normalize (Some v))))))"
proof -
  from canonical_of_acronym [OF assms(2)] obtain c where
    c: "canonical_of key variants = Some c" "c \<in> set variants" "squeeze_upper c = key"
    by auto
  from build_canonical_map_rows [of names] obtain rows where
    rows: "build_canonical_map names = Some rows"
    "set rows = {(v, c). \<exists>k vs. (k, vs) \<in> set (build_clusters names) \<and> v \<in> set vs \<and>
                        canonical_of k vs = Some c}" by blast
  have r: "(v, c) \<in> set rows \<and> (\<forall>c'. (v, c') \<in> set rows \<longrightarrow> c' = c)"
    if v: "v \<in> set variants" for v
  proof
    from assms(1) v c(1) show "(v, c) \<in> set rows" unfolding rows(2) by blast
    show "\<forall>c'. (v, c') \<in> set rows \<longrightarrow> c' = c"
    proof (intro allI impI)
      fix c' assume "(v, c') \<in> set rows"
      then obtain k vs where kv: "(k, vs) \<in> set (build_clusters names)" "v \<in> set vs"
        "canonical_of k vs = Some c'" unfolding rows(2) by blast
      from cluster_unique [OF assms(1) kv(1) v kv(2)] kv(3) c(1) show "c' = c" by simp
    qed
  qed
  have k: "cluster_key v = key \<and>
          (1 < length (split_ws (basic_normalize (Some v))) \<longrightarrow>
             key = upper (map hd (split_ws (basic_normalize (Some v)))))"
    if v: "v \<in> set variants" for v
  proof -
    from cluster_props(3) [OF assms(1)] v have "cluster_key v = key" by blast
    then show ?thesis
      by (auto simp: cluster_key_def Let_def acronym_initials)
  qed
  from c rows(1) r k show ?thesis by blast
qed

theorem acronym_variant_is_canonical_witness:
  "(''DFT'', [''Department for Transport'', ''DfT'', ''DFT'']) \<in>
     set (build_clusters [Some ''Department for Transport'', Some ''Department for Transport'',
                          Some ''DfT'', Some ''DFT''])
   \<and> (\<exists>v \<in> set [''Department for Transport'', ''DfT'', ''DFT'']. squeeze_upper v = ''DFT'')
   \<and> canonical_of ''DFT'' [''Department for Transport'', ''DfT'', ''DFT''] = Some ''DfT''
   \<and> (\<exists>rows. build_canonical_map [Some ''Department for Transport'',
                 Some ''Department for Transport'', Some ''DfT'', Some ''DFT''] = Some rows
         \<and> (''Department for Transport'', ''DfT'') \<in> set rows)"
proof -
  let ?names = "[Some ''Department for Transport'', Some ''Department for Transport'',
                 Some ''DfT'', Some ''DFT'']"
  let ?vs = "[''Department for Transport'', ''DfT'', ''DFT'']"
  have m: "(''DFT'', ?vs) \<in> set (build_clusters ?names)"
    by (simp add: dft_clusters)
  have s: "squeeze_upper ''DfT'' = ''DFT''" by code_simp
  then have e: "\<exists>v \<in> set ?vs. squeeze_upper v = ''DFT''" by simp
  have c: "canonical_of ''DFT'' ?vs = Some ''DfT''" by code_simp
  from acronym_variant_is_canonical [OF m e] c m e show ?thesis by auto
qed

text \<open>
  Claim C10. When the cleaning run produces a table, every row of it has an amount
  strictly greater than zero and comes from a row of the input whose amount
  \<open>clean_financials\<close> parses to that value; a row of the input whose amount parses to zero
  is not in the table, with any canonical name. A missing amount and a text that
  \<open>float\<close> rejects parse to zero. The risk engine gives a status to the rows of its input
  table only.
\<close>

theorem cleaned_amounts_positive:
  "(run df = Inr out \<and> r \<in> set out \<longrightarrow>
      0 < value_amount r \<and>
      (\<exists>row \<in> set df. ocid r = ocid row \<and> buyer_name_raw r = buyer_name row \<and>
          value_amount r = clean_financials (value_amount row)))
   \<and> (run df = Inr out \<and> row \<in> set df \<and> clean_financials (value_amount row) = 0 \<longrightarrow>
        cleaned_row row canonical \<notin> set out)
   \<and> clean_financials NaN = 0
   \<and> (float_of_digits (strip_non_numeric s) = None \<longrightarrow> clean_financials (Str s) = 0)
   \<and> (res \<in> set (run_pqe_engine contracts materials) \<longrightarrow> input_row res \<in> set contracts)"
proof -
  have a: "0 < value_amount r \<and>
      (\<exists>row \<in> set df. ocid r = ocid row \<and> buyer_name_raw r = buyer_name row \<and>
          value_amount r = clean_financials (value_amount row))"
    if "run df = Inr out" "r \<in> set out"
  proof -
    from run_rows [OF that] obtain row canonical where
      "0 < value_amount r" "row \<in> set df" "r = cleaned_row row canonical" by blast
    then show ?thesis by (auto simp: cleaned_row_def)
  qed
  have b: "cleaned_row row canonical \<notin> set out"
    if "run df = Inr out" "clean_financials (value_amount row) = 0"
  proof
    assume "cleaned_row row canonical \<in> set out"
    from run_rows [OF that(1) this] have "0 < value_amount (cleaned_row row canonical)" by blast
    with that(2) show False by (simp add: cleaned_row_def)
  qed
  have c: "clean_financials NaN = 0" by (simp add: clean_financials_def)
  have d: "float_of_digits (strip_non_numeric s) = None \<longrightarrow> clean_financials (Str s) = 0"
    by (simp add: clean_financials_def)
  have e: "res \<in> set (run_pqe_engine contracts materials) \<longrightarrow> input_row res \<in> set contracts"
    by (auto simp: set_run_pqe_engine process_contract_input_row)
  from a b c d e show ?thesis by blast
qed

theorem cleaned_amounts_positive_witness:
  "run [example_buyer_row ''ocds-1'' ''DfT'' ''12000'', example_buyer_row ''ocds-2'' ''DfT'' ''n/a'']
     = Inr [cleaned_row (example_buyer_row ''ocds-1'' ''DfT'' ''12000'') (Str ''DfT'')]
   \<and> 0 < value_amount (cleaned_row (example_buyer_row ''ocds-1'' ''DfT'' ''12000'') (Str ''DfT''))
   \<and> clean_financials (value_amount (example_buyer_row ''ocds-2'' ''DfT'' ''n/a'')) = 0
   \<and> cleaned_row (example_buyer_row ''ocds-2'' ''DfT'' ''n/a'') (Str ''DfT'')
       \<notin> set [cleaned_row (example_buyer_row ''ocds-1'' ''DfT'' ''12000'') (Str ''DfT'')]"
proof -
  let ?r1 = "example_buyer_row ''ocds-1'' ''DfT'' ''12000''"
  let ?r2 = "example_buyer_row ''ocds-2'' ''DfT'' ''n/a''"
  let ?out = "[cleaned_row ?r1 (Str ''DfT'')]"
  have bm: "build_canonical_map [Some ''DfT'', Some ''DfT''] = Some [(''DfT'', ''DfT'')]"
    by code_simp
  have f: "clean_financials (Str ''12000'') = 12000" "clean_financials (Str ''n/a'') = 0"
    by (simp_all add: clean_financials_def strip_non_numeric_def is_digit_def
        float_of_digits_def nat_of_digits_def digit_val_def to_double_examples)
  have run: "run [?r1, ?r2] = Inr ?out"
    by (simp add: run_def example_buyer_row_def bm merge_row_def cleaned_row_def f
        drop_duplicates_def Let_def)
  have z: "clean_financials (value_amount ?r2) = 0"
    by (simp add: example_buyer_row_def f)
  have m: "cleaned_row ?r1 (Str ''DfT'') \<in> set ?out" "?r2 \<in> set [?r1, ?r2]" by simp_all
  from cleaned_amounts_positive [of "[?r1, ?r2]" ?out "cleaned_row ?r1 (Str ''DfT'')" ?r2 "Str ''DfT''"]
    run z m
  show ?thesis by blast
qed

subsection \<open>Ingestion\<close>

lemma py_eq_refl_hashable: "hashable x \<Longrightarrow> py_eq x x"
  by (cases x) auto




lemma build_contract_fields:
  "build_contract oc tender release cpv amount cur buyer country = Inr c \<Longrightarrow>
   ocid c = oc \<and> cpv_code c = JStr cpv"
  unfolding build_contract_def and_then_def
  by (auto split: sum.splits)

lemma process_release_cases:
  assumes "process_release st release = Inr st'"
  shows "st' = st \<or>
    (\<exists>oc c tender cpv.
       st' = st\<lparr>all_contracts := all_contracts st @ [c], seen_ocids := seen_ocids st @ [oc]\<rparr> \<and>
       dict_get release ''ocid'' JNull = Inr oc \<and> truthy oc \<and> py_in oc (seen_ocids st) = Inr False \<and>
       ocid c = oc \<and> cpv_code c = JStr cpv \<and>
       dict_get release ''tender'' (JObj []) = Inr tender \<and>
       extract_cpv tender release = Inr cpv \<and> cpv \<noteq> ''UNKNOWN'' \<and>
       list_ex (startswith cpv) CIVIL_WORKS_CPVS)"
  using assms unfolding process_release_def and_then_def
  by (auto split: sum.splits if_splits prod.splits dest: build_contract_fields)

lemma process_release_skip:
  assumes "dedup_inv (all_contracts st) (seen_ocids st)"
    and "dict_get release ''ocid'' JNull = Inr oc"
    and "\<not> truthy oc \<or> oc \<in> set (map ocid (all_contracts st))"
  shows "process_release st release = Inr st"
proof (cases "truthy oc")
  case False
  with assms(2) show ?thesis by (simp add: process_release_def and_then_def)
next
  case True
  with assms(3) have m: "oc \<in> set (seen_ocids st)"
    using assms(1) by (simp add: dedup_inv_def)
  with assms(1) have h: "hashable oc" by (auto simp: dedup_inv_def)
  then have "py_eq oc oc" by (rule py_eq_refl_hashable)
  with m h have "py_in oc (seen_ocids st) = Inr True"
    by (auto simp: py_in_def list_ex_iff)
  with assms(2) True show ?thesis by (simp add: process_release_def and_then_def)
qed

lemma process_release_dedup_inv:
  assumes "process_release st release = Inr st'" "dedup_inv (all_contracts st) (seen_ocids st)"
  shows "dedup_inv (all_contracts st') (seen_ocids st')"
proof -
  from process_release_cases [OF assms(1)] show ?thesis
  proof
    assume "st' = st"
    with assms(2) show ?thesis by simp
  next
    assume "\<exists>oc c tender cpv.
       st' = st\<lparr>all_contracts := all_contracts st @ [c], seen_ocids := seen_ocids st @ [oc]\<rparr> \<and>
       dict_get release ''ocid'' JNull = Inr oc \<and> truthy oc \<and> py_in oc (seen_ocids st) = Inr False \<and>
       ocid c = oc \<and> cpv_code c = JStr cpv \<and>
       dict_get release ''tender'' (JObj []) = Inr tender \<and>
       extract_cpv tender release = Inr cpv \<and> cpv \<noteq> ''UNKNOWN'' \<and>
       list_ex (startswith cpv) CIVIL_WORKS_CPVS"
    then obtain oc c where
      st': "all_contracts st' = all_contracts st @ [c]" "seen_ocids st' = seen_ocids st @ [oc]"
      and oc: "truthy oc" "py_in oc (seen_ocids st) = Inr False" "ocid c = oc"
      by auto
    from oc(2) have h: "hashable oc" and n: "\<not> list_ex (py_eq oc) (seen_ocids st)"
      by (auto simp: py_in_def split: if_splits)
    from h have "py_eq oc oc" by (rule py_eq_refl_hashable)
    with n have "oc \<notin> set (seen_ocids st)" by (auto simp: list_ex_iff)
    with assms(2) oc h show ?thesis by (auto simp: dedup_inv_def st')
  qed
qed


text \<open>An invariant of the two lists that each accepted release keeps is kept by the run.\<close>

lemma process_releases_inv:
  fixes st :: fetch_state
  assumes step: "\<And>(st :: fetch_state) release st'. process_release st release = Inr st' \<Longrightarrow>
                   P (all_contracts st) (seen_ocids st) \<Longrightarrow> P (all_contracts st') (seen_ocids st')"
  shows "P (all_contracts st) (seen_ocids st) \<Longrightarrow>
         P (all_contracts (fst (process_releases st rs))) (seen_ocids (fst (process_releases st rs)))"
proof (induction rs arbitrary: st)
  case Nil
  then show ?case by simp
next
  case (Cons r rs)
  show ?case
  proof (cases "process_release st r")
    case (Inl e)
    with Cons.prems show ?thesis by simp
  next
    case (Inr st1)
    from step [OF Inr Cons.prems] have "P (all_contracts st1) (seen_ocids st1)" .
    from Cons.IH [OF this] Inr show ?thesis by simp
  qed
qed

lemma advance_lists:
  "advance st data = Stop s st' \<or> advance st data = Continue st' \<Longrightarrow>
   all_contracts st' = all_contracts st \<and> seen_ocids st' = seen_ocids st"
  unfolding advance_def
  by (auto split: sum.splits if_splits json.splits)

lemma process_page_inv:
  assumes step: "\<And>(st :: fetch_state) release st'. process_release st release = Inr st' \<Longrightarrow>
                   P (all_contracts st) (seen_ocids st) \<Longrightarrow> P (all_contracts st') (seen_ocids st')"
    and "P (all_contracts st) (seen_ocids st)"
    and "process_page st resp = Stop s st' \<or> process_page st resp = Continue st'"
  shows "P (all_contracts st') (seen_ocids st')"
proof -
  have pr: "P (all_contracts (fst (process_releases st rs))) (seen_ocids (fst (process_releases st rs)))"
    for rs :: "json list"
    using step assms(2) by (rule process_releases_inv)
  show ?thesis
  proof (cases "status_code resp \<noteq> 200")
    case True
    with assms(2,3) show ?thesis by (auto simp: process_page_def)
  next
    case ok: False
    show ?thesis
    proof (cases "body resp")
      case None
      with ok assms(2,3) show ?thesis by (auto simp: process_page_def)
    next
      case (Some data)
      show ?thesis
      proof (cases "dict_get data ''releases'' (JList [])")
        case (Inl e)
        with ok Some assms(2,3) show ?thesis by (auto simp: process_page_def)
      next
        case (Inr releases)
        show ?thesis
        proof (cases "truthy releases")
          case False
          with ok Some Inr assms(2,3) show ?thesis by (auto simp: process_page_def)
        next
          case True
          show ?thesis
          proof (cases "py_iter releases")
            case (Inl e)
            with ok Some Inr True assms(2,3) show ?thesis by (auto simp: process_page_def)
          next
            case rs: (Inr rs)
            obtain st1 r where pr1: "process_releases st rs = (st1, r)" by force
            with pr [of rs] have p1: "P (all_contracts st1) (seen_ocids st1)" by simp
            show ?thesis
            proof (cases r)
              case (Some e)
              with ok \<open>body resp = Some data\<close> Inr True rs pr1 assms(3) have "st' = st1"
                by (auto simp: process_page_def)
              with p1 show ?thesis by simp
            next
              case None
              with ok \<open>body resp = Some data\<close> Inr True rs pr1 assms(3)
              have "advance st1 data = Stop s st' \<or> advance st1 data = Continue st'"
                by (auto simp: process_page_def)
              from advance_lists [OF this] p1 show ?thesis by simp
            qed
          qed
        qed
      qed
    qed
  qed
qed

lemma fetch_loop_inv:
  assumes step: "\<And>(st :: fetch_state) release st'. process_release st release = Inr st' \<Longrightarrow>
                   P (all_contracts st) (seen_ocids st) \<Longrightarrow> P (all_contracts st') (seen_ocids st')"
  shows "P (all_contracts st) (seen_ocids st) \<Longrightarrow>
         P (all_contracts (snd (fetch_loop st outs))) (seen_ocids (snd (fetch_loop st outs)))"
proof (induction st outs rule: fetch_loop.induct)
  case (1 st outs)
  let ?g = "safe_get MAX_RETRIES 2 outs"
  let ?st1 = "st\<lparr>page_count := page_count st + 1,
                   request_log := request_log st @
                     [if first_page st then FirstQuery else Url (next_url st)],
                   sleep_log := sleep_log st @ map of_int (slept ?g)\<rparr>"
  from "1.prems" have p1: "P (all_contracts (?st1\<lparr>first_page := False\<rparr>)) (seen_ocids (?st1\<lparr>first_page := False\<rparr>))"
    by simp
  show ?case
  proof (cases "result ?g")
    case (Returned resp)
    show ?thesis
    proof (cases "process_page (?st1\<lparr>first_page := False\<rparr>) resp")
      case (Stop s st')
      then have "process_page (?st1\<lparr>first_page := False\<rparr>) resp = Stop s st' \<or>
                 process_page (?st1\<lparr>first_page := False\<rparr>) resp = Continue st'" by simp
      with step p1 have "P (all_contracts st') (seen_ocids st')"
        by (rule process_page_inv [where P = P])
      with Returned Stop show ?thesis
        by (simp add: fetch_loop.simps [of st outs] Let_def)
    next
      case (Continue st')
      then have "process_page (?st1\<lparr>first_page := False\<rparr>) resp = Stop DONE st' \<or>
                 process_page (?st1\<lparr>first_page := False\<rparr>) resp = Continue st'" by simp
      with step p1 have "P (all_contracts st') (seen_ocids st')"
        by (rule process_page_inv [where P = P])
      from "1.IH" [OF refl refl Returned Continue this] Returned Continue show ?thesis
        by (simp add: fetch_loop.simps [of st outs] Let_def)
    qed
  qed (use "1.prems" in \<open>simp_all add: fetch_loop.simps [of st outs] Let_def\<close>)
qed

lemma fetch_dedup_inv:
  "dedup_inv (all_contracts (snd (fetch_2025_construction_contracts cursor outs)))
             (seen_ocids (snd (fetch_2025_construction_contracts cursor outs)))"
  unfolding fetch_2025_construction_contracts_def
proof (rule fetch_loop_inv [where P = dedup_inv])
  fix st :: fetch_state and release st'
  assume "process_release st release = Inr st'" "dedup_inv (all_contracts st) (seen_ocids st)"
  then show "dedup_inv (all_contracts st') (seen_ocids st')" by (rule process_release_dedup_inv)
qed (simp add: dedup_inv_def)


lemmas release_eval =
  process_release_def and_then_def dict_get_def py_in_def extract_cpv_def is_dict_def
  normalize_cpv_def py_str_def is_digit_def CIVIL_WORKS_CPVS_def extract_value_def
  value_of_def py_or_def py_iter_def build_contract_def slice_500_def Let_def


lemma example_release_repeat:
  "process_release
     \<lparr>all_contracts = [example_contract ''ocds-a'' ''452100002''], seen_ocids = [JStr ''ocds-a''],
      next_url = n, first_page = f, page_count = p, cursor_file = c, request_log = r, sleep_log = s\<rparr>
     (example_release ''ocds-a'' ''71000000'') =
   Inr \<lparr>all_contracts = [example_contract ''ocds-a'' ''452100002''], seen_ocids = [JStr ''ocds-a''],
      next_url = n, first_page = f, page_count = p, cursor_file = c, request_log = r, sleep_log = s\<rparr>"
  by (simp add: example_release_def release_eval)

lemma example_release_first:
  "process_release
     \<lparr>all_contracts = [], seen_ocids = [],
      next_url = n, first_page = f, page_count = p, cursor_file = c, request_log = r, sleep_log = s\<rparr>
     (example_release ''ocds-a'' ''45210000-2'') =
   Inr \<lparr>all_contracts = [example_contract ''ocds-a'' ''452100002''], seen_ocids = [JStr ''ocds-a''],
      next_url = n, first_page = f, page_count = p, cursor_file = c, request_log = r, sleep_log = s\<rparr>"
  by (simp add: example_release_def example_contract_def release_eval)

lemma example_release_rejected:
  "process_release
     \<lparr>all_contracts = cs, seen_ocids = [JStr ''ocds-a''],
      next_url = n, first_page = f, page_count = p, cursor_file = c, request_log = r, sleep_log = s\<rparr>
     (example_release ''ocds-b'' ''98000000'') =
   Inr \<lparr>all_contracts = cs, seen_ocids = [JStr ''ocds-a''],
      next_url = n, first_page = f, page_count = p, cursor_file = c, request_log = r, sleep_log = s\<rparr>"
  by (simp add: example_release_def release_eval)

lemma example_run:
  "fetch_2025_construction_contracts None
     [example_page [example_release ''ocds-a'' ''45210000-2''] ''page2'',
      example_page [example_release ''ocds-a'' ''71000000'', example_release ''ocds-b'' ''98000000''] []]
   = (DONE,
      \<lparr>all_contracts = [example_contract ''ocds-a'' ''452100002''], seen_ocids = [JStr ''ocds-a''],
       next_url = JStr ''page2'', first_page = False, page_count = 2, cursor_file = Some ''page2'',
       request_log = [FirstQuery, Url (JStr ''page2'')], sleep_log = [SLEEP_SECONDS]\<rparr>)"
  by (simp add: fetch_2025_construction_contracts_def load_last_cursor_def
      fetch_loop.simps [of _ "[a, b]" for a b] fetch_loop.simps [of _ "[a]" for a]
      safe_get_def MAX_RETRIES_def example_page_def process_page_def advance_def dict_get_def
      py_iter_def example_release_first example_release_repeat example_release_rejected Let_def)

text \<open>
  Claim C3. Whatever the remote listing returns, page after page, the contracts
  accumulated by \<open>fetch_2025_construction_contracts\<close> have pairwise different \<open>ocid\<close>s,
  and these are the seen identifiers. The invariant \<open>dedup_inv\<close> holds at the start and is
  kept by every release that is processed without an exception; the state passes from
  page to page. In a state that satisfies it, a release whose \<open>ocid\<close> is missing or
  otherwise false, or is the \<open>ocid\<close> of an accumulated contract, is skipped: no exception,
  and the state is unchanged.
\<close>

theorem ocid_dedup:
  "distinct (map ocid (all_contracts (snd (fetch_2025_construction_contracts cursor outs))))
   \<and> seen_ocids (snd (fetch_2025_construction_contracts cursor outs)) =
       map ocid (all_contracts (snd (fetch_2025_construction_contracts cursor outs)))
   \<and> dedup_inv [] []
   \<and> (dedup_inv (all_contracts st) (seen_ocids st) \<and> process_release st release = Inr st' \<longrightarrow>
        dedup_inv (all_contracts st') (seen_ocids st'))
   \<and> (dedup_inv (all_contracts st) (seen_ocids st) \<and>
        dict_get release ''ocid'' JNull = Inr oc \<and>
        (\<not> truthy oc \<or> oc \<in> set (map ocid (all_contracts st))) \<longrightarrow>
        process_release st release = Inr st)"
proof -
  let ?st = "snd (fetch_2025_construction_contracts cursor outs)"
  from fetch_dedup_inv [of cursor outs]
  have a: "distinct (map ocid (all_contracts ?st))" "seen_ocids ?st = map ocid (all_contracts ?st)"
    by (auto simp: dedup_inv_def)
  have b: "dedup_inv [] []" by (simp add: dedup_inv_def)
  from a b process_release_dedup_inv process_release_skip show ?thesis by blast
qed

theorem ocid_dedup_witness:
  "dedup_inv [example_contract ''ocds-a'' ''452100002''] [JStr ''ocds-a'']
   \<and> dict_get (example_release ''ocds-a'' ''71000000'') ''ocid'' JNull = Inr (JStr ''ocds-a'')
   \<and> JStr ''ocds-a'' \<in> set (map ocid [example_contract ''ocds-a'' ''452100002''])
   \<and> process_release
         \<lparr>all_contracts = [example_contract ''ocds-a'' ''452100002''], seen_ocids = [JStr ''ocds-a'']\<rparr>
         (example_release ''ocds-a'' ''71000000'') =
       Inr \<lparr>all_contracts = [example_contract ''ocds-a'' ''452100002''], seen_ocids = [JStr ''ocds-a'']\<rparr>
   \<and> map ocid (all_contracts (snd (fetch_2025_construction_contracts None
         [example_page [example_release ''ocds-a'' ''45210000-2''] ''page2'',
          example_page [example_release ''ocds-a'' ''71000000'',
                        example_release ''ocds-b'' ''98000000''] []]))) = [JStr ''ocds-a'']"
proof -
  let ?st = "\<lparr>all_contracts = [example_contract ''ocds-a'' ''452100002''],
              seen_ocids = [JStr ''ocds-a'']\<rparr>"
  have i: "dedup_inv (all_contracts ?st) (seen_ocids ?st)"
    by (simp add: dedup_inv_def example_contract_def)
  have g: "dict_get (example_release ''ocds-a'' ''71000000'') ''ocid'' JNull = Inr (JStr ''ocds-a'')"
    by (simp add: dict_get_def example_release_def)
  have m: "JStr ''ocds-a'' \<in> set (map ocid (all_contracts ?st))"
    by (simp add: example_contract_def)
  have r: "map ocid (all_contracts (snd (fetch_2025_construction_contracts None
         [example_page [example_release ''ocds-a'' ''45210000-2''] ''page2'',
          example_page [example_release ''ocds-a'' ''71000000'',
                        example_release ''ocds-b'' ''98000000''] []]))) = [JStr ''ocds-a'']"
    by (simp add: example_run example_contract_def)
  from ocid_dedup [of _ _ ?st "example_release ''ocds-a'' ''71000000''" _ "JStr ''ocds-a''"] i g m
  have "process_release ?st (example_release ''ocds-a'' ''71000000'') = Inr ?st" by blast
  with i g m r show ?thesis by simp
qed



end
